theory Spec2Isabelle
  imports Main "HOL-Library.Sublist"
begin

section \<open>Python strings\<close>

text \<open>
  A Python \<open>str\<close> is modelled as a HOL \<open>string\<close>; a \<open>char\<close> stands for the code point
  of the same number, so the model covers the texts whose code points are below 256.
  In that range the decimal digits (\<open>\d\<close>, \<open>str.isdigit\<close>) are \<open>0\<close> to \<open>9\<close>, and the
  white space that \<open>str.strip\<close> removes is the set listed in \<open>py_isspace\<close>.
\<close>

definition nl :: char where
  "nl = CHR 0x0A"

definition apos :: char where
  "apos = CHR 0x27"

definition py_isdigit :: "char \<Rightarrow> bool" where
  "py_isdigit c = (c \<in> set ''0123456789'')"

definition py_isspace :: "char \<Rightarrow> bool" where
  "py_isspace c = (c \<in> set [CHR 0x09, CHR 0x0A, CHR 0x0B, CHR 0x0C, CHR 0x0D,
                               CHR 0x1C, CHR 0x1D, CHR 0x1E, CHR 0x1F, CHR 0x20,
                               CHR 0x85, CHR 0xA0])"

text \<open>\<open>s.strip()\<close>: white space is removed at both ends.\<close>

definition py_strip :: "string \<Rightarrow> string" where
  "py_strip s = rev (dropWhile py_isspace (rev (dropWhile py_isspace s)))"

text \<open>\<open>s.split('\n')\<close> and \<open>'\n'.join(xs)\<close>, \<open>sep.join(xs)\<close>.\<close>

fun py_split_nl :: "string \<Rightarrow> string list" where
  "py_split_nl [] = [[]]"
| "py_split_nl (c # s) =
     (if c = nl then [] # py_split_nl s
      else (case py_split_nl s of l # ls \<Rightarrow> (c # l) # ls | [] \<Rightarrow> [[c]]))"

fun py_join :: "string \<Rightarrow> string list \<Rightarrow> string" where
  "py_join sep [] = []"
| "py_join sep [x] = x"
| "py_join sep (x # y # xs) = x @ sep @ py_join sep (y # xs)"

text \<open>\<open>str(n)\<close> of an integer: its decimal numeral, with a minus sign below zero.\<close>

definition digit_char :: "nat \<Rightarrow> char" where
  "digit_char d = ''0123456789'' ! d"

fun str_nat :: "nat \<Rightarrow> string" where
  "str_nat n = (if n < 10 then [digit_char n] else str_nat (n div 10) @ [digit_char (n mod 10)])"

declare str_nat.simps [simp del]

definition str_int :: "int \<Rightarrow> string" where
  "str_int i = (if i < 0 then CHR ''-'' # str_nat (nat (- i)) else str_nat (nat i))"

text \<open>
  The exceptions that the program meets: those of Python itself, and what the graph store
  and the model service raise, with their messages.
\<close>

datatype exn =
    TypeError
  | ValueError
  | IndexError
  | KeyError
  | AttributeError
  | StoreError string
  | ModelError string

text \<open>
  \<open>int(s)\<close> in base 10: white space around the numeral is ignored, one sign may lead it,
  and single underscores may stand between digits; anything else raises \<open>ValueError\<close>.
\<close>

definition digit_val :: "char \<Rightarrow> nat" where
  "digit_val c = of_char c - 48"

definition dec_val :: "string \<Rightarrow> nat" where
  "dec_val ds = foldl (\<lambda>acc c. 10 * acc + digit_val c) 0 ds"

fun int_body_ok :: "string \<Rightarrow> bool" where
  "int_body_ok [] = False"
| "int_body_ok [c] = py_isdigit c"
| "int_body_ok (c # d # s) =
     (py_isdigit c \<and> (if d = CHR ''_'' then int_body_ok s else int_body_ok (d # s)))"

definition py_int :: "string \<Rightarrow> exn + int" where
  "py_int s =
     (let t = py_strip s;
          neg = (case t of c # _ \<Rightarrow> c = CHR ''-'' | [] \<Rightarrow> False);
          body = (case t of c # r \<Rightarrow> if c = CHR ''-'' \<or> c = CHR ''+'' then r else t | [] \<Rightarrow> t)
      in if int_body_ok body
         then Inr ((if neg then - 1 else 1) * int (dec_val (filter (\<lambda>c. c \<noteq> CHR ''_'') body)))
         else Inl ValueError)"

section \<open>Regular expressions as \<open>re.search\<close> runs them\<close>

text \<open>
  The fragment of Python's \<open>re\<close> syntax that the patterns of \<open>nl_to_cypher.py\<close> use:
  literal text, \<open>.\<close> (any character but a newline), \<open>\d\<close>, \<open>$\<close> (the end of the text,
  or the position before a final newline), concatenation, alternation \<open>a|b\<close>, the greedy
  option \<open>a?\<close>, the lazy repetition \<open>x+?\<close> of a single-character class, and capturing groups.
  No flag is passed to \<open>re.search\<close>, so letters match themselves only.
\<close>

datatype atom = AnyCh | DigitCh

datatype rx =
    Lit string
  | One atom
  | Eos
  | Seq rx rx
  | Alt rx rx
  | Opt rx
  | LazyPlus atom
  | Grp rx

fun atom_ok :: "atom \<Rightarrow> char \<Rightarrow> bool" where
  "atom_ok AnyCh c = (c \<noteq> nl)"
| "atom_ok DigitCh c = py_isdigit c"

text \<open>
  The matcher is the backtracking search of the \<open>re\<close> engine written with an explicit
  continuation: a stack of what is still to be matched. Alternatives are tried left to
  right, \<open>a?\<close> tries \<open>a\<close> first, \<open>x+?\<close> takes one character and then tries the rest of the
  pattern before it takes another. A group records the text consumed between its opening
  and its closing; the groups of the patterns here are neither nested nor optional, so
  the order in which they close is their numbering. The result is the text left after
  the match and the captured groups.
\<close>

datatype frame = R rx | LazyMore atom | Close string

fun rx_weight :: "rx \<Rightarrow> nat" where
  "rx_weight (Lit l) = 1"
| "rx_weight (One a) = 1"
| "rx_weight Eos = 1"
| "rx_weight (Seq a b) = Suc (rx_weight a + rx_weight b)"
| "rx_weight (Alt a b) = Suc (rx_weight a + rx_weight b)"
| "rx_weight (Opt a) = Suc (rx_weight a)"
| "rx_weight (LazyPlus a) = 2"
| "rx_weight (Grp a) = Suc (Suc (rx_weight a))"

fun frame_weight :: "frame \<Rightarrow> nat" where
  "frame_weight (R r) = rx_weight r"
| "frame_weight (LazyMore a) = 1"
| "frame_weight (Close s) = 1"

function bt :: "frame list \<Rightarrow> string \<Rightarrow> string list \<Rightarrow> (string \<times> string list) option" where
  "bt [] s caps = Some (s, caps)"
| "bt (R (Lit l) # k) s caps =
     (if prefix l s then bt k (drop (length l) s) caps else None)"
| "bt (R (One a) # k) s caps =
     (case s of [] \<Rightarrow> None | c # s' \<Rightarrow> if atom_ok a c then bt k s' caps else None)"
| "bt (R Eos # k) s caps =
     (if s = [] \<or> s = [nl] then bt k s caps else None)"
| "bt (R (Seq a b) # k) s caps = bt (R a # R b # k) s caps"
| "bt (R (Alt a b) # k) s caps =
     (case bt (R a # k) s caps of Some m \<Rightarrow> Some m | None \<Rightarrow> bt (R b # k) s caps)"
| "bt (R (Opt a) # k) s caps =
     (case bt (R a # k) s caps of Some m \<Rightarrow> Some m | None \<Rightarrow> bt k s caps)"
| "bt (R (LazyPlus a) # k) s caps =
     (case s of [] \<Rightarrow> None | c # s' \<Rightarrow> if atom_ok a c then bt (LazyMore a # k) s' caps else None)"
| "bt (LazyMore a # k) s caps =
     (case bt k s caps of
        Some m \<Rightarrow> Some m
      | None \<Rightarrow> (case s of [] \<Rightarrow> None
                 | c # s' \<Rightarrow> if atom_ok a c then bt (LazyMore a # k) s' caps else None))"
| "bt (R (Grp a) # k) s caps = bt (R a # Close s # k) s caps"
| "bt (Close s0 # k) s caps = bt k s (caps @ [take (length s0 - length s) s0])"
  by pat_completeness auto
termination
  by (relation "measures [\<lambda>(k, s, caps). length s, \<lambda>(k, s, caps). sum_list (map frame_weight k)]")
     auto

text \<open>
  \<open>re.search(p, s)\<close>: the leftmost position from which the pattern matches, the end of
  the text included. \<open>group0\<close> is \<open>m.group()\<close>, \<open>groups\<close> is \<open>m.groups()\<close>.
\<close>

record re_match =
  group0 :: string
  groups :: "string list"

fun re_search :: "rx \<Rightarrow> string \<Rightarrow> re_match option" where
  "re_search p s =
     (case bt [R p] s [] of
        Some (rest, caps) \<Rightarrow> Some \<lparr>group0 = take (length s - length rest) s, groups = caps\<rparr>
      | None \<Rightarrow> (case s of [] \<Rightarrow> None | c # s' \<Rightarrow> re_search p s'))"

declare re_search.simps [simp del]

section \<open>The rule table of \<open>NLToCypherConverter\<close>\<close>

text \<open>What the program prints, as events that carry the printed values.\<close>

datatype out =
    PrintTrying string
  | PrintGroups "string list"
  | PrintErrorGenerating exn
  | PrintArgs string string string
  | PrintFilter string
  | PrintLLMError exn
  | PrintExecError exn
  | PrintQuestion string
  | PrintGenerated string string

fun seqs :: "rx list \<Rightarrow> rx" where
  "seqs [] = Lit []"
| "seqs [r] = r"
| "seqs (r # rs) = Seq r (seqs rs)"

fun alts :: "string list \<Rightarrow> rx" where
  "alts [] = Lit []"
| "alts [w] = Lit w"
| "alts (w # ws) = Alt (Lit w) (alts ws)"

text \<open>\<open>\d{4}\<close>, \<open>(.+?)\<close> and \<open>(?:\?|$)\<close>.\<close>

definition d4 :: rx where
  "d4 = Seq (One DigitCh) (Seq (One DigitCh) (Seq (One DigitCh) (One DigitCh)))"

definition some_text :: rx where
  "some_text = Grp (LazyPlus AnyCh)"

definition end_q :: rx where
  "end_q = Alt (Lit ''?'') Eos"

text \<open>The eight patterns of \<open>self.query_patterns\<close>, in the order of registration.\<close>

definition pat_race_engineer :: rx where
  "pat_race_engineer =
     seqs [Lit ''who was '', some_text, Lit [apos], Opt (Lit ''s''), Lit '' race engineer '',
           alts [''when'', ''in'', ''for'', ''during''], Lit '' '', some_text, end_q]"

definition pat_race_engineer_reverse :: rx where
  "pat_race_engineer_reverse =
     seqs [Lit ''who was '', some_text, Lit '' race engineer for '',
           Grp (alts [''before'', ''after'', ''during'']), Lit '' '', Grp d4, end_q]"

definition pat_team :: rx where
  "pat_team =
     seqs [Lit ''what team did '', some_text, Lit '' '', alts [''drive for'', ''race for''],
           Lit '' '', alts [''in'', ''during''], Lit '' '', Grp d4, end_q]"

definition pat_champion :: rx where
  "pat_champion =
     seqs [Lit ''who won '', Opt (Lit ''the ''), Lit ''championship '',
           alts [''in'', ''during''], Lit '' '', Grp d4, end_q]"

definition pat_dominant_team :: rx where
  "pat_dominant_team =
     seqs [Lit ''which team dominated '', Opt (Lit ''the ''), Grp d4, Lit '' season'', end_q]"

definition pat_team_relative :: rx where
  "pat_team_relative =
     seqs [Lit ''what team did '', some_text, Lit '' '', alts [''drive for'', ''race for''],
           Lit '' '', alts [''before'', ''after''], Lit '' '', Grp d4, end_q]"

definition pat_champion_relative :: rx where
  "pat_champion_relative =
     seqs [Lit ''who won '', Opt (Lit ''the ''), Lit ''championship '',
           alts [''before'', ''after''], Lit '' '', Grp d4, end_q]"

definition pat_dominant_team_relative :: rx where
  "pat_dominant_team_relative =
     seqs [Lit ''which team dominated '', Opt (Lit ''the ''), Lit ''season '',
           alts [''before'', ''after''], Lit '' '', Grp d4, end_q]"

subsection \<open>The template handlers\<close>

text \<open>
  A handler returns the text of its f-string: a newline, then every line behind the
  indentation of the source, then a newline and the indentation before the closing quotes.
\<close>

definition block :: "nat \<Rightarrow> string list \<Rightarrow> string" where
  "block n ls = concat (map (\<lambda>l. nl # replicate n (CHR '' '') @ l) ls) @ nl # replicate n (CHR '' '')"

text \<open>Truth values of Python: \<open>None\<close>, \<open>0\<close> and the empty string are false.\<close>

definition truthy_year :: "int option \<Rightarrow> bool" where
  "truthy_year y = (case y of None \<Rightarrow> False | Some n \<Rightarrow> n \<noteq> 0)"

definition truthy_text :: "string option \<Rightarrow> bool" where
  "truthy_text t = (case t of None \<Rightarrow> False | Some s \<Rightarrow> s \<noteq> [])"

text \<open>\<open>year = int(year_match.group()) if year_match else None\<close>, on \<open>re.search(r'\d{4}', context)\<close>.\<close>

definition first_year :: "string \<Rightarrow> exn + int option" where
  "first_year context =
     (case re_search d4 context of
        None \<Rightarrow> Inr None
      | Some year_match \<Rightarrow> (case py_int (group0 year_match) of Inl e \<Rightarrow> Inl e | Inr y \<Rightarrow> Inr (Some y)))"

definition parse_temporal_context :: "string \<Rightarrow> exn + int option" where
  "parse_temporal_context context = first_year context"

definition build_temporal_filter :: "int \<Rightarrow> string \<Rightarrow> string" where
  "build_temporal_filter year temporal_relation =
     (if temporal_relation = ''before'' then ''r.year < '' @ str_int year
      else if temporal_relation = ''after'' then ''r.year > '' @ str_int year
      else ''r.year = '' @ str_int year)"

definition race_engineer_query :: "string \<Rightarrow> string \<Rightarrow> exn + string" where
  "race_engineer_query driver_name year_context =
     (case first_year year_context of
        Inl e \<Rightarrow> Inl e
      | Inr year \<Rightarrow>
          if truthy_year year
          then Inr (block 12
            [''MATCH (driver:Entity {name: '' @ [apos] @ driver_name @ [apos] @ ''})-[r:RELATION]->(engineer:Entity)'',
             ''WHERE r.type CONTAINS 'engineer' AND r.year = '' @ str_int (the year),
             ''RETURN engineer.name as answer, r.year as year''])
          else Inr (block 12
            [''MATCH (driver:Entity {name: '' @ [apos] @ driver_name @ [apos] @ ''})-[r:RELATION]->(engineer:Entity)'',
             ''WHERE r.type CONTAINS 'engineer'' @ [apos],
             ''RETURN engineer.name as answer, r.year as year'',
             ''ORDER BY r.year DESC'',
             ''LIMIT 1'']))"

definition race_engineer_reverse_relative_query ::
  "string \<Rightarrow> string \<Rightarrow> string \<Rightarrow> out list \<times> (exn + string)" where
  "race_engineer_reverse_relative_query engineer_name temporal_relation year =
     (if temporal_relation \<in> set [''before'', ''after'']
      then (case py_int year of
              Inl e \<Rightarrow> ([PrintArgs engineer_name temporal_relation year], Inl e)
            | Inr y \<Rightarrow>
                let temporal_filter = build_temporal_filter y temporal_relation;
                    order_clause = (if temporal_relation = ''before'' then ''ORDER BY r.year DESC''
                                    else ''ORDER BY r.year ASC'')
                in ([PrintArgs engineer_name temporal_relation year, PrintFilter temporal_filter],
                    Inr (block 12
                      [''MATCH (engineer:Entity {name: '' @ [apos] @ engineer_name @ [apos] @ ''})-[r:RELATION]->(driver:Entity)'',
                       ''WHERE r.type CONTAINS 'engineer' AND '' @ temporal_filter,
                       ''RETURN driver.name as answer, r.year as year'',
                       order_clause,
                       ''LIMIT 5''])))
      else ([PrintArgs engineer_name temporal_relation year],
            Inr (block 12
              [''MATCH (engineer:Entity {name: '' @ [apos] @ engineer_name @ [apos] @ ''})-[r:RELATION]->(driver:Entity)'',
               ''WHERE r.type CONTAINS 'engineer' AND r.year = '' @ year,
               ''RETURN driver.name as answer, r.year as year''])))"

definition team_query :: "string \<Rightarrow> string \<Rightarrow> string" where
  "team_query driver_name year =
     block 8
       [''MATCH (driver:Entity {name: '' @ [apos] @ driver_name @ [apos] @ ''})-[r:RELATION]->(team:Entity)'',
        ''WHERE (r.type CONTAINS 'drove' OR r.type CONTAINS 'team' OR r.type CONTAINS 'race')'',
        ''AND r.year = '' @ year,
        ''RETURN team.name as answer, r.year as year'']"

text \<open>
  \<open>year, temporal_relation = self._parse_temporal_context(year_context)\<close>: the value on the
  right is an \<open>int\<close> or \<open>None\<close>, and Python raises \<open>TypeError\<close> when it unpacks either
  ("cannot unpack non-iterable int object", "cannot unpack non-iterable NoneType object").
\<close>

definition unpack_pair :: "int option \<Rightarrow> exn + (int option \<times> string option)" where
  "unpack_pair v = (case v of None \<Rightarrow> Inl TypeError | Some n \<Rightarrow> Inl TypeError)"

definition team_relative_query :: "string \<Rightarrow> string \<Rightarrow> exn + string" where
  "team_relative_query driver_name year_context =
     (case parse_temporal_context year_context of
        Inl e \<Rightarrow> Inl e
      | Inr v \<Rightarrow>
         (case unpack_pair v of
            Inl e \<Rightarrow> Inl e
          | Inr (year, temporal_relation) \<Rightarrow>
              if truthy_year year \<and> truthy_text temporal_relation
              then let temporal_filter = build_temporal_filter (the year) (the temporal_relation);
                       order_clause = (if temporal_relation = Some ''before'' then ''ORDER BY r.year DESC''
                                       else ''ORDER BY r.year ASC'')
                   in Inr (block 12
                     [''MATCH (driver:Entity {name: '' @ [apos] @ driver_name @ [apos] @ ''})-[r:RELATION]->(team:Entity)'',
                      ''WHERE (r.type CONTAINS 'drove' OR r.type CONTAINS 'team' OR r.type CONTAINS 'race')'',
                      ''AND '' @ temporal_filter,
                      ''RETURN team.name as answer, r.year as year'',
                      order_clause,
                      ''LIMIT 5''])
              else Inr (block 12
                     [''MATCH (driver:Entity {name: '' @ [apos] @ driver_name @ [apos] @ ''})-[r:RELATION]->(team:Entity)'',
                      ''WHERE (r.type CONTAINS 'drove' OR r.type CONTAINS 'team' OR r.type CONTAINS 'race')'',
                      ''RETURN team.name as answer, r.year as year'',
                      ''ORDER BY r.year DESC'',
                      ''LIMIT 1''])))"

definition champion_query :: "string \<Rightarrow> string" where
  "champion_query year =
     block 8
       [''MATCH (driver:Entity)-[r:RELATION]->(championship:Entity)'',
        ''WHERE (r.type CONTAINS 'champion' OR r.type CONTAINS 'won')'',
        ''AND r.year = '' @ year,
        ''RETURN driver.name as answer, r.year as year'']"

definition champion_relative_query :: "string \<Rightarrow> exn + string" where
  "champion_relative_query year_context =
     (case parse_temporal_context year_context of
        Inl e \<Rightarrow> Inl e
      | Inr v \<Rightarrow>
         (case unpack_pair v of
            Inl e \<Rightarrow> Inl e
          | Inr (year, temporal_relation) \<Rightarrow>
              if truthy_year year \<and> truthy_text temporal_relation
              then let temporal_filter = build_temporal_filter (the year) (the temporal_relation);
                       order_clause = (if temporal_relation = Some ''before'' then ''ORDER BY r.year DESC''
                                       else ''ORDER BY r.year ASC'')
                   in Inr (block 12
                     [''MATCH (driver:Entity)-[r:RELATION]->(championship:Entity)'',
                      ''WHERE (r.type CONTAINS 'champion' OR r.type CONTAINS 'won')'',
                      ''AND '' @ temporal_filter,
                      ''RETURN driver.name as answer, r.year as year'',
                      order_clause,
                      ''LIMIT 5''])
              else Inr (block 12
                     [''MATCH (driver:Entity)-[r:RELATION]->(championship:Entity)'',
                      ''WHERE (r.type CONTAINS 'champion' OR r.type CONTAINS 'won')'',
                      ''RETURN driver.name as answer, r.year as year'',
                      ''ORDER BY r.year DESC'',
                      ''LIMIT 1''])))"

definition dominant_team_query :: "string \<Rightarrow> string" where
  "dominant_team_query year =
     block 8
       [''MATCH (team:Entity)-[r:RELATION]->(achievement:Entity)'',
        ''WHERE r.year = '' @ year,
        ''AND (r.type CONTAINS 'won' OR r.type CONTAINS 'champion' OR r.type CONTAINS 'dominated')'',
        ''RETURN team.name as answer, count(r) as dominance_score'',
        ''ORDER BY dominance_score DESC'',
        ''LIMIT 1'']"

definition dominant_team_relative_query :: "string \<Rightarrow> exn + string" where
  "dominant_team_relative_query year_context =
     (case parse_temporal_context year_context of
        Inl e \<Rightarrow> Inl e
      | Inr v \<Rightarrow>
         (case unpack_pair v of
            Inl e \<Rightarrow> Inl e
          | Inr (year, temporal_relation) \<Rightarrow>
              if truthy_year year \<and> truthy_text temporal_relation
              then let temporal_filter = build_temporal_filter (the year) (the temporal_relation);
                       order_clause = (if temporal_relation = Some ''before''
                                       then ''ORDER BY dominance_score DESC, r.year DESC''
                                       else ''ORDER BY dominance_score DESC, r.year ASC'')
                   in Inr (block 12
                     [''MATCH (team:Entity)-[r:RELATION]->(achievement:Entity)'',
                      ''WHERE '' @ temporal_filter,
                      ''AND (r.type CONTAINS 'won' OR r.type CONTAINS 'champion' OR r.type CONTAINS 'dominated')'',
                      ''RETURN team.name as answer, count(r) as dominance_score, r.year as year'',
                      order_clause,
                      ''LIMIT 5''])
              else Inr (block 12
                     [''MATCH (team:Entity)-[r:RELATION]->(achievement:Entity)'',
                      ''WHERE (r.type CONTAINS 'won' OR r.type CONTAINS 'champion' OR r.type CONTAINS 'dominated')'',
                      ''RETURN team.name as answer, count(r) as dominance_score'',
                      ''ORDER BY dominance_score DESC'',
                      ''LIMIT 1''])))"

subsection \<open>Dispatch and the scan of the rules\<close>

text \<open>
  \<open>pattern_info['template'](*match.groups())\<close>: the groups are the positional arguments,
  and a call with the wrong number of arguments raises \<open>TypeError\<close>.
\<close>

definition call1 :: "(string \<Rightarrow> out list \<times> (exn + string)) \<Rightarrow> string list \<Rightarrow> out list \<times> (exn + string)" where
  "call1 h gs = (case gs of [a] \<Rightarrow> h a | _ \<Rightarrow> ([], Inl TypeError))"

definition call2 :: "(string \<Rightarrow> string \<Rightarrow> out list \<times> (exn + string)) \<Rightarrow> string list \<Rightarrow> out list \<times> (exn + string)" where
  "call2 h gs = (case gs of [a, b] \<Rightarrow> h a b | _ \<Rightarrow> ([], Inl TypeError))"

definition call3 :: "(string \<Rightarrow> string \<Rightarrow> string \<Rightarrow> out list \<times> (exn + string)) \<Rightarrow> string list \<Rightarrow> out list \<times> (exn + string)" where
  "call3 h gs = (case gs of [a, b, c] \<Rightarrow> h a b c | _ \<Rightarrow> ([], Inl TypeError))"

record rule =
  pattern :: rx
  template :: "string list \<Rightarrow> out list \<times> (exn + string)"

definition query_patterns :: "rule list" where
  "query_patterns =
     [\<lparr>pattern = pat_race_engineer,
       template = call2 (\<lambda>a b. ([], race_engineer_query a b))\<rparr>,
      \<lparr>pattern = pat_race_engineer_reverse,
       template = call3 race_engineer_reverse_relative_query\<rparr>,
      \<lparr>pattern = pat_team,
       template = call2 (\<lambda>a b. ([], Inr (team_query a b)))\<rparr>,
      \<lparr>pattern = pat_champion,
       template = call1 (\<lambda>a. ([], Inr (champion_query a)))\<rparr>,
      \<lparr>pattern = pat_dominant_team,
       template = call1 (\<lambda>a. ([], Inr (dominant_team_query a)))\<rparr>,
      \<lparr>pattern = pat_team_relative,
       template = call2 (\<lambda>a b. ([], team_relative_query a b))\<rparr>,
      \<lparr>pattern = pat_champion_relative,
       template = call1 (\<lambda>a. ([], champion_relative_query a))\<rparr>,
      \<lparr>pattern = pat_dominant_team_relative,
       template = call1 (\<lambda>a. ([], dominant_team_relative_query a))\<rparr>]"

text \<open>
  The loop of \<open>rule_based_query\<close> over the rules that are left: a rule whose pattern is not
  found is passed over; the first handler that returns ends the loop with its query; a
  handler that raises is reported and the loop goes on (\<open>continue\<close>).
\<close>

fun scan_rules :: "rule list \<Rightarrow> string \<Rightarrow> out list \<times> string option" where
  "scan_rules [] question = ([], None)"
| "scan_rules (pattern_info # rest) question =
     (case re_search (pattern pattern_info) (py_strip question) of
        None \<Rightarrow> scan_rules rest question
      | Some m \<Rightarrow>
         (case template pattern_info (groups m) of
            (printed, Inr cypher) \<Rightarrow> (PrintGroups (groups m) # printed, Some cypher)
          | (printed, Inl e) \<Rightarrow>
              (case scan_rules rest question of
                 (later, res) \<Rightarrow>
                   (PrintGroups (groups m) # printed @ PrintErrorGenerating e # later, res))))"

definition rule_based_query :: "string \<Rightarrow> out list \<times> string option" where
  "rule_based_query question =
     (case scan_rules query_patterns question of
        (printed, res) \<Rightarrow> (PrintTrying question # printed, res))"

section \<open>Execution, formatting and the answer\<close>

text \<open>
  A row is a dictionary from column names to values, kept as an association list in the
  order of the columns (\<open>list(result.values())[0]\<close> is the value of the first column);
  a column name stands once in a row. The values are the scalars \<open>None\<close>, booleans,
  integers and strings; floating-point numbers, lists and graph objects are left out.
\<close>

datatype pyval = PNone | PBool bool | PInt int | PStr string

type_synonym row = "(string \<times> pyval) list"

definition py_str :: "pyval \<Rightarrow> string" where
  "py_str v = (case v of PNone \<Rightarrow> ''None''
               | PBool b \<Rightarrow> (if b then ''True'' else ''False'')
               | PInt i \<Rightarrow> str_int i
               | PStr s \<Rightarrow> s)"

definition truthy :: "pyval \<Rightarrow> bool" where
  "truthy v = (case v of PNone \<Rightarrow> False | PBool b \<Rightarrow> b | PInt i \<Rightarrow> i \<noteq> 0 | PStr s \<Rightarrow> s \<noteq> [])"

text \<open>
  The graph store, as the driver shows it: \<open>session.run(query)\<close> raises or hands back a
  result whose records are fetched one by one, and each fetch may raise as well. Opening
  the session is part of the call. The store is taken to answer a query text in one way
  for the time of one question.
\<close>

type_synonym driver = "string \<Rightarrow> exn + (exn + row) list"

text \<open>\<open>[dict(record) for record in result]\<close>: the first fetch that raises ends the loop.\<close>

fun collect_rows :: "(exn + row) list \<Rightarrow> exn + row list" where
  "collect_rows [] = Inr []"
| "collect_rows (Inl e # rest) = Inl e"
| "collect_rows (Inr r # rest) =
     (case collect_rows rest of Inl e \<Rightarrow> Inl e | Inr rs \<Rightarrow> Inr (r # rs))"

definition execute_query :: "driver \<Rightarrow> string \<Rightarrow> out list \<times> row list" where
  "execute_query drv cypher =
     (case drv cypher of
        Inl e \<Rightarrow> ([PrintExecError e], [])
      | Inr result \<Rightarrow>
         (case collect_rows result of
            Inl e \<Rightarrow> ([PrintExecError e], [])
          | Inr rows \<Rightarrow> ([], rows)))"

text \<open>\<open>[record[key] for record in result]\<close> of the schema lookup; a missing column raises.\<close>

fun collect_column :: "string \<Rightarrow> (exn + row) list \<Rightarrow> exn + pyval list" where
  "collect_column key [] = Inr []"
| "collect_column key (Inl e # rest) = Inl e"
| "collect_column key (Inr r # rest) =
     (case map_of r key of
        None \<Rightarrow> Inl KeyError
      | Some v \<Rightarrow> (case collect_column key rest of Inl e \<Rightarrow> Inl e | Inr vs \<Rightarrow> Inr (v # vs)))"

definition get_schema_info :: "driver \<Rightarrow> exn + (pyval list \<times> pyval list)" where
  "get_schema_info drv =
     (case drv (block 12 [''MATCH ()-[r:RELATION]->()'',
                          ''RETURN DISTINCT r.type as rel_type'',
                          ''LIMIT 10'']) of
        Inl e \<Rightarrow> Inl e
      | Inr result \<Rightarrow>
         (case collect_column ''rel_type'' result of
            Inl e \<Rightarrow> Inl e
          | Inr rel_types \<Rightarrow>
             (case drv (block 12 [''MATCH (e:Entity)'',
                                  ''RETURN e.name as name'',
                                  ''LIMIT 20'']) of
                Inl e \<Rightarrow> Inl e
              | Inr result2 \<Rightarrow>
                 (case collect_column ''name'' result2 of
                    Inl e \<Rightarrow> Inl e
                  | Inr entities \<Rightarrow> Inr (rel_types, entities)))))"

text \<open>
  The model client: the prompt is fixed text around the question, so the client is taken
  as a function of the question. It raises, or answers with the \<open>message.content\<close> of each
  of its choices (\<open>None\<close> where a choice has no text).
\<close>

type_synonym llm = "string \<Rightarrow> exn + string option list"

record converter =
  driver_of :: driver
  openai_client :: "llm option"

text \<open>The body of the \<open>try\<close> in \<open>llm_based_query\<close>.\<close>

definition llm_try :: "llm \<Rightarrow> string \<Rightarrow> exn + string" where
  "llm_try client question =
     (case client question of
        Inl e \<Rightarrow> Inl e
      | Inr choices \<Rightarrow>
         (case choices of
            [] \<Rightarrow> Inl IndexError
          | None # _ \<Rightarrow> Inl AttributeError
          | Some content # _ \<Rightarrow>
              let cypher = py_strip content
              in if prefix ''```'' cypher
                 then Inr (py_join [nl] (butlast (tl (py_split_nl cypher))))
                 else Inr cypher))"

definition llm_based_query :: "converter \<Rightarrow> string \<Rightarrow> out list \<times> (exn + string option)" where
  "llm_based_query conv question =
     (case openai_client conv of
        None \<Rightarrow> ([], Inr None)
      | Some client \<Rightarrow>
         (case get_schema_info (driver_of conv) of
            Inl e \<Rightarrow> ([], Inl e)
          | Inr schema_info \<Rightarrow>
             (case llm_try client question of
                Inl e \<Rightarrow> ([PrintLLMError e], Inr None)
              | Inr cypher \<Rightarrow> ([], Inr (Some cypher)))))"

text \<open>
  \<open>_format_answer\<close>. The rendering of one row when it is the only row, and of a row among
  several, are written out in the source one after the other; they differ in the text
  around the year.
\<close>

definition first_value :: "row \<Rightarrow> exn + pyval" where
  "first_value result = (case result of [] \<Rightarrow> Inl IndexError | (k, v) # _ \<Rightarrow> Inr v)"

definition format_single :: "row \<Rightarrow> exn + string" where
  "format_single result =
     (case map_of result ''answer'' of
        Some answer \<Rightarrow>
          let year = (case map_of result ''year'' of None \<Rightarrow> PStr [] | Some y \<Rightarrow> y)
          in if truthy year then Inr (py_str answer @ '' (in '' @ py_str year @ '')'')
             else Inr (py_str answer)
      | None \<Rightarrow> (case first_value result of Inl e \<Rightarrow> Inl e | Inr v \<Rightarrow> Inr (py_str v)))"

fun format_loop :: "row list \<Rightarrow> string list \<Rightarrow> exn + string list" where
  "format_loop [] answers = Inr answers"
| "format_loop (result # rest) answers =
     (case map_of result ''answer'' of
        Some answer \<Rightarrow>
          let year = (case map_of result ''year'' of None \<Rightarrow> PStr [] | Some y \<Rightarrow> y)
          in if truthy year
             then format_loop rest (answers @ [py_str answer @ '' ('' @ py_str year @ '')''])
             else format_loop rest (answers @ [py_str answer])
      | None \<Rightarrow>
         (case first_value result of
            Inl e \<Rightarrow> Inl e
          | Inr v \<Rightarrow> format_loop rest (answers @ [py_str v])))"

definition format_answer :: "row list \<Rightarrow> string \<Rightarrow> exn + string" where
  "format_answer results question =
     (if results = [] then Inr ''I couldn't find an answer to that question in the knowledge graph.''
      else if length results = 1 then format_single (hd results)
      else (case format_loop (take 5 results) [] of
              Inl e \<Rightarrow> Inl e
            | Inr answers \<Rightarrow> Inr (py_join ''; '' answers)))"

record answer =
  ans_question :: string
  ans_cypher :: "string option"
  ans_results :: "row list"
  ans_answer :: string
  ans_approach :: string

text \<open>\<open>not cypher\<close>: \<open>None\<close> and the empty string are false.\<close>

definition answer_question :: "converter \<Rightarrow> string \<Rightarrow> bool \<Rightarrow> out list \<times> (exn + answer)" where
  "answer_question conv question use_llm =
     (case rule_based_query question of
        (printed1, rule_cypher) \<Rightarrow>
          (case (if \<not> truthy_text rule_cypher \<and> use_llm
                 then (case llm_based_query conv question of
                         (p, Inl e) \<Rightarrow> (p, Inl e)
                       | (p, Inr c) \<Rightarrow> (p, Inr (c, ''llm-based'')))
                 else ([], Inr (rule_cypher, ''rule-based''))) of
             (printed2, Inl e) \<Rightarrow> (PrintQuestion question # printed1 @ printed2, Inl e)
           | (printed2, Inr (cypher, approach)) \<Rightarrow>
               if \<not> truthy_text cypher
               then (PrintQuestion question # printed1 @ printed2,
                     Inr \<lparr>ans_question = question, ans_cypher = None, ans_results = [],
                          ans_answer = ''Sorry, I couldn't understand that question.'',
                          ans_approach = ''none''\<rparr>)
               else (case execute_query (driver_of conv) (the cypher) of
                       (printed3, results) \<Rightarrow>
                         (case format_answer results question of
                            Inl e \<Rightarrow>
                              (PrintQuestion question # printed1 @ printed2
                                 @ PrintGenerated approach (the cypher) # printed3, Inl e)
                          | Inr text \<Rightarrow>
                              (PrintQuestion question # printed1 @ printed2
                                 @ PrintGenerated approach (the cypher) # printed3,
                               Inr \<lparr>ans_question = question, ans_cypher = cypher,
                                    ans_results = results, ans_answer = text,
                                    ans_approach = approach\<rparr>)))))"

text \<open>
  \<open>ask_question\<close> of \<open>web_interface.py\<close>, up to the dictionary it hands to the page
  template: \<open>get_converter()\<close> and \<open>answer_question\<close> run inside one \<open>try\<close>. \<open>Failed e\<close>
  stands for the dictionary of the \<open>except\<close> branch, whose answer is
  \<open>"Error processing question: "\<close> followed by \<open>str(e)\<close>, with approach \<open>"error"\<close>, no
  query and no rows.
\<close>

datatype web_result = Answered answer | Failed exn

definition ask_question :: "exn + converter \<Rightarrow> string \<Rightarrow> web_result" where
  "ask_question get_converter question =
     (case get_converter of
        Inl e \<Rightarrow> Failed e
      | Inr conv \<Rightarrow>
         (case snd (answer_question conv question True) of
            Inl e \<Rightarrow> Failed e
          | Inr result \<Rightarrow> Answered result))"

definition web_approach :: "web_result \<Rightarrow> string" where
  "web_approach w = (case w of Answered a \<Rightarrow> ans_approach a | Failed e \<Rightarrow> ''error'')"

section \<open>Notions used to state the properties\<close>

text \<open>
  What a pattern matches, said without the search: \<open>sem r w rest g\<close> holds when \<open>r\<close>
  matches the text \<open>w\<close> followed by \<open>rest\<close> and its groups capture \<open>g\<close>.
\<close>

inductive sem :: "rx \<Rightarrow> string \<Rightarrow> string \<Rightarrow> string list \<Rightarrow> bool" where
  sem_Lit: "sem (Lit l) l rest []"
| sem_One: "atom_ok a c \<Longrightarrow> sem (One a) [c] rest []"
| sem_Eos: "rest = [] \<or> rest = [nl] \<Longrightarrow> sem Eos [] rest []"
| sem_Seq: "sem a w1 (w2 @ rest) g1 \<Longrightarrow> sem b w2 rest g2 \<Longrightarrow> sem (Seq a b) (w1 @ w2) rest (g1 @ g2)"
| sem_AltL: "sem a w rest g \<Longrightarrow> sem (Alt a b) w rest g"
| sem_AltR: "sem b w rest g \<Longrightarrow> sem (Alt a b) w rest g"
| sem_OptSome: "sem a w rest g \<Longrightarrow> sem (Opt a) w rest g"
| sem_OptNone: "sem (Opt a) [] rest []"
| sem_LazyPlus: "w \<noteq> [] \<Longrightarrow> list_all (atom_ok a) w \<Longrightarrow> sem (LazyPlus a) w rest []"
| sem_Grp: "sem a w rest g \<Longrightarrow> sem (Grp a) w rest (g @ [w])"

text \<open>A pattern without capturing groups.\<close>

fun group_free :: "rx \<Rightarrow> bool" where
  "group_free (Lit l) = True"
| "group_free (One a) = True"
| "group_free Eos = True"
| "group_free (Seq a b) = (group_free a \<and> group_free b)"
| "group_free (Alt a b) = (group_free a \<and> group_free b)"
| "group_free (Opt a) = group_free a"
| "group_free (LazyPlus a) = True"
| "group_free (Grp a) = False"

text \<open>What the groups \<open>(\d{4})\<close> and \<open>(.+?)\<close> can hold.\<close>

definition year4 :: "string \<Rightarrow> bool" where
  "year4 y = (length y = 4 \<and> list_all py_isdigit y)"

definition name_ok :: "string \<Rightarrow> bool" where
  "name_ok n = (n \<noteq> [] \<and> nl \<notin> set n)"

text \<open>The first run of four digits of a text, any four digits.\<close>

fun starts_d4 :: "string \<Rightarrow> bool" where
  "starts_d4 (a # b # c # d # s) = (py_isdigit a \<and> py_isdigit b \<and> py_isdigit c \<and> py_isdigit d)"
| "starts_d4 _ = False"

fun first_d4 :: "string \<Rightarrow> string option" where
  "first_d4 [] = None"
| "first_d4 (c # s) = (if starts_d4 (c # s) then Some (take 4 (c # s)) else first_d4 s)"

text \<open>A question in which two of the relative rules find their pattern.\<close>

definition q_retry :: string where
  "q_retry = ''what team did who won championship after 2018? drive for after 2019?''"

text \<open>
  Reading a query text: its lines without the white space around them, and the lines
  that begin with a given keyword (\<open>ORDER BY\<close>, \<open>LIMIT\<close>).
\<close>

definition query_lines :: "string \<Rightarrow> string list" where
  "query_lines q = map py_strip (py_split_nl q)"

definition clause_lines :: "string \<Rightarrow> string \<Rightarrow> string list" where
  "clause_lines kw q = filter (prefix kw) (query_lines q)"

text \<open>A line that keeps its text when it is cut out of a query and stripped.\<close>

definition clean_line :: "string \<Rightarrow> bool" where
  "clean_line l = (l \<noteq> [] \<and> nl \<notin> set l \<and> \<not> py_isspace (hd l) \<and> \<not> py_isspace (last l))"

text \<open>
  The rendering of a row that stands among several, following the loop of
  \<open>_format_answer\<close>: the answer with the year in brackets, the answer alone, or the value
  of the first column (a row without columns has no rendering: the loop raises there).
\<close>

definition render_among :: "row \<Rightarrow> string" where
  "render_among r =
     (case map_of r ''answer'' of
        Some a \<Rightarrow>
          (case map_of r ''year'' of
             None \<Rightarrow> py_str a
           | Some y \<Rightarrow> if truthy y then py_str a @ '' ('' @ py_str y @ '')'' else py_str a)
      | None \<Rightarrow> (case r of [] \<Rightarrow> [] | (k, v) # _ \<Rightarrow> py_str v))"

text \<open>
  A converter whose store refuses every call while its model client answers, and one
  whose store answers every query with one row.
\<close>

definition conv_store_down :: converter where
  "conv_store_down =
     \<lparr>driver_of = (\<lambda>q. Inl (StoreError ''connection refused'')),
      openai_client = Some (\<lambda>q. Inr [Some ''MATCH (n) RETURN n''])\<rparr>"

definition conv_store_up :: converter where
  "conv_store_up =
     \<lparr>driver_of = (\<lambda>q. Inr [Inr [(''answer'', PStr ''Lewis Hamilton''), (''year'', PInt 2017)]]),
      openai_client = None\<rparr>"

section \<open>The matcher finds only what the pattern describes\<close>

lemma bt_LazyMore_sound:
  "bt (LazyMore a # k) s c = Some res \<Longrightarrow>
   \<exists>w rest. s = w @ rest \<and> list_all (atom_ok a) w \<and> bt k rest c = Some res"
proof (induction s)
  case Nil
  then show ?case by (auto split: option.splits)
next
  case (Cons x s)
  show ?case
  proof (cases "bt k (x # s) c")
    case (Some m)
    with Cons.prems have "bt k (x # s) c = Some res" by simp
    then show ?thesis by (intro exI[of _ "[]"] exI[of _ "x # s"]) simp
  next
    case None
    with Cons.prems have ok: "atom_ok a x" and more: "bt (LazyMore a # k) s c = Some res"
      by (auto split: if_splits)
    from Cons.IH[OF more] obtain w rest where
      "s = w @ rest" "list_all (atom_ok a) w" "bt k rest c = Some res" by blast
    with ok show ?thesis by (intro exI[of _ "x # w"] exI[of _ rest]) simp
  qed
qed

lemma bt_sound:
  "bt (R r # k) s c = Some res \<Longrightarrow>
   \<exists>w rest g. s = w @ rest \<and> sem r w rest g \<and> bt k rest (c @ g) = Some res"
proof (induction r arbitrary: k s c)
  case (Lit l)
  then have p: "prefix l s" and b: "bt k (drop (length l) s) c = Some res"
    by (auto split: if_splits)
  from p obtain t where "s = l @ t" by (auto simp: prefix_def)
  with b show ?case by (intro exI[of _ l] exI[of _ t] exI[of _ "[]"]) (simp add: sem_Lit)
next
  case (One a)
  then obtain x t where "s = x # t" "atom_ok a x" "bt k t c = Some res"
    by (auto split: list.splits if_splits)
  then show ?case by (intro exI[of _ "[x]"] exI[of _ t] exI[of _ "[]"]) (simp add: sem_One)
next
  case Eos
  then have "s = [] \<or> s = [nl]" "bt k s c = Some res" by (auto split: if_splits)
  then show ?case by (intro exI[of _ "[]"] exI[of _ s] exI[of _ "[]"]) (simp add: sem_Eos)
next
  case (Seq a b)
  then have "bt (R a # R b # k) s c = Some res" by simp
  from Seq.IH(1)[OF this] obtain w1 r1 g1 where
    1: "s = w1 @ r1" "sem a w1 r1 g1" "bt (R b # k) r1 (c @ g1) = Some res" by blast
  from Seq.IH(2)[OF 1(3)] obtain w2 r2 g2 where
    2: "r1 = w2 @ r2" "sem b w2 r2 g2" "bt k r2 ((c @ g1) @ g2) = Some res" by blast
  from 1 2 have "sem (Seq a b) (w1 @ w2) r2 (g1 @ g2)" by (auto intro: sem_Seq)
  with 1 2 show ?case by (intro exI[of _ "w1 @ w2"] exI[of _ r2] exI[of _ "g1 @ g2"]) simp
next
  case (Alt a b)
  show ?case
  proof (cases "bt (R a # k) s c")
    case (Some m)
    with Alt.prems have "bt (R a # k) s c = Some res" by simp
    from Alt.IH(1)[OF this] show ?thesis by (blast intro: sem_AltL)
  next
    case None
    with Alt.prems have "bt (R b # k) s c = Some res" by simp
    from Alt.IH(2)[OF this] show ?thesis by (blast intro: sem_AltR)
  qed
next
  case (Opt a)
  show ?case
  proof (cases "bt (R a # k) s c")
    case (Some m)
    with Opt.prems have "bt (R a # k) s c = Some res" by simp
    from Opt.IH[OF this] show ?thesis by (blast intro: sem_OptSome)
  next
    case None
    with Opt.prems have "bt k s c = Some res" by simp
    then show ?thesis by (intro exI[of _ "[]"] exI[of _ s] exI[of _ "[]"]) (simp add: sem_OptNone)
  qed
next
  case (LazyPlus a)
  then obtain x t where x: "s = x # t" "atom_ok a x" "bt (LazyMore a # k) t c = Some res"
    by (auto split: list.splits if_splits)
  from bt_LazyMore_sound[OF x(3)] obtain w rest where
    "t = w @ rest" "list_all (atom_ok a) w" "bt k rest c = Some res" by blast
  with x show ?case
    by (intro exI[of _ "x # w"] exI[of _ rest] exI[of _ "[]"]) (simp add: sem_LazyPlus)
next
  case (Grp a)
  then have "bt (R a # Close s # k) s c = Some res" by simp
  from Grp.IH[OF this] obtain w rest g where
    g: "s = w @ rest" "sem a w rest g" "bt (Close s # k) rest (c @ g) = Some res" by blast
  then have "bt k rest (c @ (g @ [w])) = Some res" by simp
  with g show ?case by (intro exI[of _ w] exI[of _ rest] exI[of _ "g @ [w]"]) (simp add: sem_Grp)
qed

lemma re_search_sound:
  "re_search p s = Some m \<Longrightarrow>
   \<exists>pre rest. s = pre @ group0 m @ rest \<and> sem p (group0 m) rest (groups m)"
proof (induction s)
  case Nil
  then obtain rest caps where b: "bt [R p] [] [] = Some (rest, caps)"
    and m: "m = \<lparr>group0 = [], groups = caps\<rparr>"
    by (auto simp: re_search.simps[of p "[]"] split: option.splits)
  from bt_sound[OF b] show ?case using m by auto
next
  case (Cons x s)
  show ?case
  proof (cases "bt [R p] (x # s) []")
    case None
    with Cons.prems have "re_search p s = Some m"
      by (simp add: re_search.simps[of p "x # s"])
    from Cons.IH[OF this] obtain pre rest where
      "s = pre @ group0 m @ rest \<and> sem p (group0 m) rest (groups m)" by blast
    then show ?thesis by (intro exI[of _ "x # pre"] exI[of _ rest]) simp
  next
    case (Some a)
    obtain rest caps where a: "a = (rest, caps)" by (cases a)
    with Some Cons.prems
    have m: "m = \<lparr>group0 = take (length (x # s) - length rest) (x # s), groups = caps\<rparr>"
      by (simp add: re_search.simps[of p "x # s"])
    from bt_sound[of p "[]" "x # s" "[]"] Some a obtain w r g where
      w: "x # s = w @ r" "sem p w r g" "bt [] r g = Some (rest, caps)" by auto
    then have "r = rest" "g = caps" by auto
    with w m have "group0 m = w" "groups m = g" by auto
    with w \<open>r = rest\<close> show ?thesis by (intro exI[of _ "[]"] exI[of _ rest]) simp
  qed
qed

inductive_simps sem_Lit_iff: "sem (Lit l) w rest g"
inductive_simps sem_One_iff: "sem (One a) w rest g"
inductive_simps sem_Eos_iff: "sem Eos w rest g"
inductive_simps sem_Seq_iff: "sem (Seq a b) w rest g"
inductive_simps sem_Alt_iff: "sem (Alt a b) w rest g"
inductive_simps sem_Opt_iff: "sem (Opt a) w rest g"
inductive_simps sem_LazyPlus_iff: "sem (LazyPlus a) w rest g"
inductive_simps sem_Grp_iff: "sem (Grp a) w rest g"

lemmas sem_iffs = sem_Lit_iff sem_One_iff sem_Eos_iff sem_Seq_iff sem_Alt_iff sem_Opt_iff
  sem_LazyPlus_iff sem_Grp_iff

lemma sem_d4: "sem (Grp d4) w rest g \<Longrightarrow> g = [w] \<and> year4 w"
  by (auto simp: d4_def sem_iffs year4_def)

lemma sem_some_text: "sem some_text w rest g \<Longrightarrow> g = [w] \<and> name_ok w"
  by (auto simp: some_text_def sem_iffs name_ok_def list_all_iff)

lemma sem_end_q: "sem end_q w rest g \<Longrightarrow> g = []"
  by (auto simp: end_q_def sem_iffs)

lemma sem_Seq_E:
  "sem (Seq a b) w rest g \<Longrightarrow>
   \<exists>w1 w2 g1 g2. w = w1 @ w2 \<and> g = g1 @ g2 \<and> sem a w1 (w2 @ rest) g1 \<and> sem b w2 rest g2"
  by (auto simp: sem_iffs)

lemma sem_group_free: "sem r w rest g \<Longrightarrow> group_free r \<Longrightarrow> g = []"
  by (induction rule: sem.induct) auto

lemma sem_Grp_alt3:
  "sem (Grp (Alt (Lit a) (Alt (Lit b) (Lit c)))) w rest g \<Longrightarrow> g = [w] \<and> (w = a \<or> w = b \<or> w = c)"
  by (auto simp: sem_iffs)

lemma sem_Opt_Lit_free: "sem (Opt (Lit l)) w rest g \<Longrightarrow> g = []"
  using sem_group_free[of "Opt (Lit l)"] by simp

lemma sem_Alt2_free: "sem (Alt (Lit a) (Lit b)) w rest g \<Longrightarrow> g = []"
  using sem_group_free[of "Alt (Lit a) (Lit b)"] by simp

lemma sem_Alt4_free: "sem (Alt (Lit a) (Alt (Lit b) (Alt (Lit c) (Lit d)))) w rest g \<Longrightarrow> g = []"
  using sem_group_free[of "Alt (Lit a) (Alt (Lit b) (Alt (Lit c) (Lit d)))"] by simp

lemma sem_Lit_free: "sem (Lit l) w rest g \<Longrightarrow> g = []"
  by (auto simp: sem_iffs)

lemmas sem_dests = sem_Seq_E sem_some_text sem_end_q sem_d4 sem_Grp_alt3 sem_Lit_free
  sem_Opt_Lit_free sem_Alt2_free sem_Alt4_free

lemma groups_race_engineer:
  assumes "sem pat_race_engineer w rest g"
  shows "\<exists>n c. g = [n, c] \<and> name_ok n \<and> name_ok c"
  using assms unfolding pat_race_engineer_def seqs.simps
  by (auto dest!: sem_dests)

lemma groups_race_engineer_reverse:
  assumes "sem pat_race_engineer_reverse w rest g"
  shows "\<exists>n r y. g = [n, r, y] \<and> name_ok n \<and> r \<in> {''before'', ''after'', ''during''} \<and> year4 y"
  using assms unfolding pat_race_engineer_reverse_def seqs.simps
  by (auto dest!: sem_dests)

lemma groups_team:
  assumes "sem pat_team w rest g"
  shows "\<exists>n y. g = [n, y] \<and> name_ok n \<and> year4 y"
  using assms unfolding pat_team_def seqs.simps
  by (auto dest!: sem_dests)

lemma groups_champion:
  assumes "sem pat_champion w rest g"
  shows "\<exists>y. g = [y] \<and> year4 y"
  using assms unfolding pat_champion_def seqs.simps
  by (auto dest!: sem_dests)

lemma groups_dominant_team:
  assumes "sem pat_dominant_team w rest g"
  shows "\<exists>y. g = [y] \<and> year4 y"
  using assms unfolding pat_dominant_team_def seqs.simps
  by (auto dest!: sem_dests)

section \<open>Years\<close>

lemma digit_not_space: "py_isdigit c \<Longrightarrow> \<not> py_isspace c"
  by (auto simp: py_isdigit_def py_isspace_def)

lemma digit_not_sign: "py_isdigit c \<Longrightarrow> c \<noteq> CHR ''-'' \<and> c \<noteq> CHR ''+'' \<and> c \<noteq> CHR ''_'' \<and> c \<noteq> nl"
  by (auto simp: py_isdigit_def nl_def)

lemma year4_cases: "year4 y \<Longrightarrow> \<exists>a b c d. y = [a, b, c, d] \<and> py_isdigit a \<and> py_isdigit b \<and> py_isdigit c \<and> py_isdigit d"
  by (cases y; cases "tl y"; cases "tl (tl y)"; cases "tl (tl (tl y))") (auto simp: year4_def)

lemma py_strip_year4: "year4 y \<Longrightarrow> py_strip y = y"
  by (auto dest!: year4_cases simp: py_strip_def digit_not_space)

lemma py_int_year4: "year4 y \<Longrightarrow> py_int y = Inr (int (dec_val y))"
proof -
  assume y: "year4 y"
  then obtain a b c d where abcd: "y = [a, b, c, d]" "py_isdigit a" "py_isdigit b" "py_isdigit c" "py_isdigit d"
    using year4_cases by blast
  have s: "py_strip y = y" using y by (rule py_strip_year4)
  show ?thesis
    unfolding py_int_def s using abcd digit_not_sign[of a] digit_not_sign[of b] digit_not_sign[of c] digit_not_sign[of d]
    by (simp add: Let_def)
qed

lemma bt_d4: "bt [R d4] s [] = (if starts_d4 s then Some (drop 4 s, []) else None)"
  by (cases s rule: starts_d4.cases) (auto simp: d4_def)

lemma starts_d4_length: "starts_d4 s \<Longrightarrow> 4 \<le> length s"
  by (cases s rule: starts_d4.cases) auto

lemma re_search_d4:
  "re_search d4 s = map_option (\<lambda>ds. \<lparr>group0 = ds, groups = []\<rparr>) (first_d4 s)"
proof (induction s)
  case Nil
  show ?case by (simp add: bt_d4 re_search.simps)
next
  case (Cons c s)
  show ?case
  proof (cases "starts_d4 (c # s)")
    case True
    then have "4 \<le> length (c # s)" by (rule starts_d4_length)
    then have "length (c # s) - length (drop 4 (c # s)) = 4" by simp
    with True show ?thesis by (simp add: bt_d4 re_search.simps[of d4 "c # s"] del: starts_d4.simps)
  next
    case False
    with Cons show ?thesis by (simp add: bt_d4 re_search.simps[of d4 "c # s"] del: starts_d4.simps)
  qed
qed

lemma first_d4_year4: "first_d4 s = Some ds \<Longrightarrow> year4 ds"
proof (induction s)
  case Nil then show ?case by simp
next
  case (Cons c s)
  show ?case
  proof (cases "starts_d4 (c # s)")
    case True
    with Cons.prems have "ds = take 4 (c # s)" by simp
    with True show ?thesis by (cases "c # s" rule: starts_d4.cases) (auto simp: year4_def)
  next
    case False
    with Cons show ?thesis by simp
  qed
qed

lemma first_year_eq:
  "first_year context = Inr (map_option (\<lambda>ds. int (dec_val ds)) (first_d4 context))"
  by (cases "first_d4 context") (auto simp: first_year_def re_search_d4 py_int_year4 dest: first_d4_year4)

lemma team_relative_raises: "team_relative_query n c = Inl TypeError"
  by (simp add: team_relative_query_def parse_temporal_context_def first_year_eq unpack_pair_def split: option.splits)

lemma champion_relative_raises: "champion_relative_query c = Inl TypeError"
  by (simp add: champion_relative_query_def parse_temporal_context_def first_year_eq unpack_pair_def split: option.splits)

lemma dominant_team_relative_raises: "dominant_team_relative_query c = Inl TypeError"
  by (simp add: dominant_team_relative_query_def parse_temporal_context_def first_year_eq unpack_pair_def split: option.splits)

section \<open>The scan of the rules\<close>

lemma snd_scan_Cons:
  "snd (scan_rules (r # rs) q) =
     (case re_search (pattern r) (py_strip q) of
        None \<Rightarrow> snd (scan_rules rs q)
      | Some m \<Rightarrow> (case snd (template r (groups m)) of
                    Inr c \<Rightarrow> Some c
                  | Inl e \<Rightarrow> snd (scan_rules rs q)))"
  by (auto split: option.splits prod.splits sum.splits)

lemma fst_scan_Cons:
  "fst (scan_rules (r # rs) q) =
     (case re_search (pattern r) (py_strip q) of
        None \<Rightarrow> fst (scan_rules rs q)
      | Some m \<Rightarrow> (case snd (template r (groups m)) of
                    Inr c \<Rightarrow> PrintGroups (groups m) # fst (template r (groups m))
                  | Inl e \<Rightarrow> PrintGroups (groups m) # fst (template r (groups m))
                             @ PrintErrorGenerating e # fst (scan_rules rs q)))"
  by (auto split: option.splits prod.splits sum.splits)

lemma snd_rule_based_query: "snd (rule_based_query q) = snd (scan_rules query_patterns q)"
  by (auto simp: rule_based_query_def split: prod.splits)

lemma fst_rule_based_query: "fst (rule_based_query q) = PrintTrying q # fst (scan_rules query_patterns q)"
  by (auto simp: rule_based_query_def split: prod.splits)

lemma scan_raising_None:
  "\<forall>r \<in> set rs. \<forall>gs. isl (snd (template r gs)) \<Longrightarrow> snd (scan_rules rs q) = None"
proof (induction rs)
  case Nil
  then show ?case by simp
next
  case (Cons r rs)
  then have IH: "snd (scan_rules rs q) = None" by simp
  show ?case
  proof (cases "re_search (pattern r) (py_strip q)")
    case None
    with IH show ?thesis unfolding snd_scan_Cons by simp
  next
    case (Some m)
    from Cons.prems have "isl (snd (template r (groups m)))" by simp
    then obtain e where "snd (template r (groups m)) = Inl e" by (auto simp: isl_def)
    with Some IH show ?thesis unfolding snd_scan_Cons by simp
  qed
qed

lemma scan_append_raising:
  assumes "\<forall>r \<in> set rs2. \<forall>gs. isl (snd (template r gs))"
  shows "snd (scan_rules (rs1 @ rs2) q) = snd (scan_rules rs1 q)"
proof (induction rs1)
  case Nil
  show ?case using scan_raising_None[OF assms] by simp
next
  case (Cons r rs1)
  then show ?case unfolding append_Cons snd_scan_Cons by (simp split: option.splits sum.splits)
qed

lemma relative_templates_raise:
  "\<forall>r \<in> set (drop 5 query_patterns). \<forall>gs. isl (snd (template r gs))"
  by (auto simp: query_patterns_def call1_def call2_def team_relative_raises
      champion_relative_raises dominant_team_relative_raises split: list.splits)

text \<open>
  Claim C2 fails as stated: in \<open>q_retry\<close> the first rule that finds its pattern is the
  relative team rule, its handler raises, and the scan goes on to the relative
  championship rule, whose handler is called with the group \<open>2018\<close> and raises too.
\<close>

theorem retry_counterexample:
  "rule_based_query q_retry =
     ([PrintTrying q_retry,
       PrintGroups [''who won championship after 2018?'', ''2019''],
       PrintErrorGenerating TypeError,
       PrintGroups [''2018''],
       PrintErrorGenerating TypeError], None)"
  by code_simp

lemma race_engineer_returns:
  assumes "re_search pat_race_engineer s = Some m"
  shows "\<exists>c. call2 (\<lambda>a b. ([], race_engineer_query a b)) (groups m) = ([], Inr c)"
proof -
  from re_search_sound[OF assms] groups_race_engineer obtain n c where "groups m = [n, c]" by blast
  then show ?thesis
    by (simp add: call2_def race_engineer_query_def first_year_eq)
qed

lemma race_engineer_reverse_returns:
  assumes "re_search pat_race_engineer_reverse s = Some m"
  shows "\<exists>p c. call3 race_engineer_reverse_relative_query (groups m) = (p, Inr c)
           \<and> (\<forall>e. PrintErrorGenerating e \<notin> set p)"
proof -
  from re_search_sound[OF assms] groups_race_engineer_reverse obtain n r y where
    g: "groups m = [n, r, y]" "year4 y" by blast
  then show ?thesis
    by (auto simp: call3_def race_engineer_reverse_relative_query_def py_int_year4 Let_def)
qed

lemma team_returns:
  assumes "re_search pat_team s = Some m"
  shows "\<exists>c. call2 (\<lambda>a b. ([], Inr (team_query a b))) (groups m) = ([], Inr c)"
proof -
  from re_search_sound[OF assms] groups_team obtain n y where "groups m = [n, y]" by blast
  then show ?thesis by (simp add: call2_def)
qed

lemma champion_returns:
  assumes "re_search pat_champion s = Some m"
  shows "\<exists>c. call1 (\<lambda>a. ([], Inr (champion_query a))) (groups m) = ([], Inr c)"
proof -
  from re_search_sound[OF assms] groups_champion obtain y where "groups m = [y]" by blast
  then show ?thesis by (simp add: call1_def)
qed

lemma dominant_team_returns:
  assumes "re_search pat_dominant_team s = Some m"
  shows "\<exists>c. call1 (\<lambda>a. ([], Inr (dominant_team_query a))) (groups m) = ([], Inr c)"
proof -
  from re_search_sound[OF assms] groups_dominant_team obtain y where "groups m = [y]" by blast
  then show ?thesis by (simp add: call1_def)
qed

lemma first_five_return:
  assumes "r \<in> set (take 5 query_patterns)" "re_search (pattern r) s = Some m"
  shows "\<exists>p c. template r (groups m) = (p, Inr c) \<and> (\<forall>e. PrintErrorGenerating e \<notin> set p)"
proof -
  from assms(1) consider
      "r = \<lparr>pattern = pat_race_engineer, template = call2 (\<lambda>a b. ([], race_engineer_query a b))\<rparr>"
    | "r = \<lparr>pattern = pat_race_engineer_reverse, template = call3 race_engineer_reverse_relative_query\<rparr>"
    | "r = \<lparr>pattern = pat_team, template = call2 (\<lambda>a b. ([], Inr (team_query a b)))\<rparr>"
    | "r = \<lparr>pattern = pat_champion, template = call1 (\<lambda>a. ([], Inr (champion_query a)))\<rparr>"
    | "r = \<lparr>pattern = pat_dominant_team, template = call1 (\<lambda>a. ([], Inr (dominant_team_query a)))\<rparr>"
    by (auto simp: query_patterns_def)
  then show ?thesis
  proof cases
    case 1
    with assms(2) race_engineer_returns[of s m] show ?thesis by auto
  next
    case 2
    with assms(2) race_engineer_reverse_returns[of s m] show ?thesis by auto
  next
    case 3
    with assms(2) team_returns[of s m] show ?thesis by auto
  next
    case 4
    with assms(2) champion_returns[of s m] show ?thesis by auto
  next
    case 5
    with assms(2) dominant_team_returns[of s m] show ?thesis by auto
  qed
qed

lemma scan_error_None:
  assumes ok: "\<forall>r \<in> set rs1. \<forall>m. re_search (pattern r) (py_strip q) = Some m \<longrightarrow>
                 (\<exists>p c. template r (groups m) = (p, Inr c) \<and> (\<forall>e. PrintErrorGenerating e \<notin> set p))"
    and bad: "\<forall>r \<in> set rs2. \<forall>gs. isl (snd (template r gs))"
  shows "PrintErrorGenerating e \<in> set (fst (scan_rules (rs1 @ rs2) q)) \<Longrightarrow>
         snd (scan_rules (rs1 @ rs2) q) = None"
  using ok
proof (induction rs1)
  case Nil
  show ?case using scan_raising_None[OF bad] by simp
next
  case (Cons r rs1)
  show ?case
  proof (cases "re_search (pattern r) (py_strip q)")
    case None
    with Cons show ?thesis unfolding append_Cons snd_scan_Cons fst_scan_Cons by simp
  next
    case (Some m)
    with Cons.prems(2) obtain p c where
      t: "template r (groups m) = (p, Inr c)" "\<forall>e. PrintErrorGenerating e \<notin> set p" by auto
    with Some Cons.prems(1) have False unfolding append_Cons fst_scan_Cons by simp
    then show ?thesis ..
  qed
qed

text \<open>
  Claim C2, as the code has it. When a rule finds its pattern and its handler raises, the
  loop reports the error and goes on with the rules that are left, whose handlers are
  called in their turn: the scan of \<open>r # rs\<close> is then the scan of \<open>rs\<close> behind the two
  reports. With the eight registered rules the outcome is nevertheless "no rule-based
  match": whenever a handler has raised during the scan, \<open>rule_based_query\<close> returns
  \<open>None\<close>, because the handlers of the first five rules never raise on what their own
  patterns capture and those of the last three always do.
\<close>

theorem handler_failure_continues:
  "(re_search (pattern r) (py_strip q) = Some m \<longrightarrow> template r (groups m) = (printed, Inl e) \<longrightarrow>
      scan_rules (r # rs) q =
        (PrintGroups (groups m) # printed @ PrintErrorGenerating e # fst (scan_rules rs q),
         snd (scan_rules rs q)))
   \<and> (PrintErrorGenerating e' \<in> set (fst (rule_based_query q')) \<longrightarrow>
        snd (rule_based_query q') = None)"
proof (intro conjI impI)
  assume "re_search (pattern r) (py_strip q) = Some m" "template r (groups m) = (printed, Inl e)"
  then show "scan_rules (r # rs) q =
        (PrintGroups (groups m) # printed @ PrintErrorGenerating e # fst (scan_rules rs q),
         snd (scan_rules rs q))"
    by (simp split: prod.splits)
next
  assume "PrintErrorGenerating e' \<in> set (fst (rule_based_query q'))"
  then have "PrintErrorGenerating e' \<in> set (fst (scan_rules (take 5 query_patterns @ drop 5 query_patterns) q'))"
    by (simp add: fst_rule_based_query)
  then have "snd (scan_rules (take 5 query_patterns @ drop 5 query_patterns) q') = None"
    using first_five_return relative_templates_raise
    by (intro scan_error_None) auto
  then show "snd (rule_based_query q') = None" by (simp add: snd_rule_based_query)
qed

text \<open>The theorem at \<open>q_retry\<close>, where the relative team rule is the first to fire.\<close>

theorem handler_failure_continues_witness:
  "scan_rules (drop 5 query_patterns) q_retry =
     ([PrintGroups [''who won championship after 2018?'', ''2019''],
       PrintErrorGenerating TypeError,
       PrintGroups [''2018''],
       PrintErrorGenerating TypeError], None)
   \<and> PrintErrorGenerating TypeError \<in> set (fst (rule_based_query q_retry))
   \<and> snd (rule_based_query q_retry) = None"
proof -
  let ?r = "\<lparr>pattern = pat_team_relative, template = call2 (\<lambda>a b. ([], team_relative_query a b))\<rparr>"
  let ?m = "\<lparr>group0 = q_retry, groups = [''who won championship after 2018?'', ''2019'']\<rparr>"
  have d: "drop 5 query_patterns = ?r # drop 6 query_patterns" by (simp add: query_patterns_def)
  have h1: "re_search (pattern ?r) (py_strip q_retry) = Some ?m" by code_simp
  have h2: "template ?r (groups ?m) = ([], Inl TypeError)" by (simp add: call2_def team_relative_raises)
  have h3: "PrintErrorGenerating TypeError \<in> set (fst (rule_based_query q_retry))" by code_simp
  have rest: "scan_rules (drop 6 query_patterns) q_retry = ([PrintGroups [''2018''], PrintErrorGenerating TypeError], None)"
    by code_simp
  from handler_failure_continues[of ?r q_retry ?m "[]" TypeError "drop 6 query_patterns" TypeError q_retry] h1 h2 h3
  have "scan_rules (?r # drop 6 query_patterns) q_retry =
        (PrintGroups (groups ?m) # [] @ PrintErrorGenerating TypeError # fst (scan_rules (drop 6 query_patterns) q_retry),
         snd (scan_rules (drop 6 query_patterns) q_retry))"
    and "snd (rule_based_query q_retry) = None" by blast+
  with d rest h3 show ?thesis by simp
qed

section \<open>The matcher finds whatever the pattern describes\<close>

lemma bt_None_caps: "bt k s c = None \<Longrightarrow> bt k s c' = None"
proof (induction k s c arbitrary: c' rule: bt.induct)
  case (1 s caps)
  then show ?case by simp
next
  case (2 l k s caps)
  show ?case
  proof (cases "prefix l s")
    case True
    with 2(2) have "bt k (drop (length l) s) caps = None" by simp
    from 2(1)[OF True this] True show ?thesis by simp
  next
    case False
    then show ?thesis by simp
  qed
next
  case (3 a k s caps)
  show ?case
  proof (cases s)
    case Nil
    then show ?thesis by simp
  next
    case (Cons x t)
    show ?thesis
    proof (cases "atom_ok a x")
      case True
      with 3(2) Cons have "bt k t caps = None" by simp
      from 3(1)[OF Cons True this] Cons True show ?thesis by simp
    next
      case False
      with Cons show ?thesis by simp
    qed
  qed
next
  case (4 k s caps)
  show ?case
  proof (cases "s = [] \<or> s = [nl]")
    case True
    with 4(2) have "bt k s caps = None" by auto
    from 4(1)[OF True this] True show ?thesis by auto
  next
    case False
    then show ?thesis by simp
  qed
next
  case (5 a b k s caps)
  from 5(2) have "bt (R a # R b # k) s caps = None" by simp
  from 5(1)[OF this] show ?case by simp
next
  case (6 a b k s caps)
  from 6(3) have n: "bt (R a # k) s caps = None" and n2: "bt (R b # k) s caps = None"
    by (auto split: option.splits)
  from 6(1)[OF n] have "bt (R a # k) s c' = None" .
  moreover from 6(2)[OF n n2] have "bt (R b # k) s c' = None" .
  ultimately show ?case by simp
next
  case (7 a k s caps)
  from 7(3) have n: "bt (R a # k) s caps = None" and n2: "bt k s caps = None"
    by (auto split: option.splits)
  from 7(1)[OF n] have "bt (R a # k) s c' = None" .
  moreover from 7(2)[OF n n2] have "bt k s c' = None" .
  ultimately show ?case by simp
next
  case (8 a k s caps)
  show ?case
  proof (cases s)
    case Nil
    then show ?thesis by simp
  next
    case (Cons x t)
    show ?thesis
    proof (cases "atom_ok a x")
      case True
      with 8(2) Cons have "bt (LazyMore a # k) t caps = None" by simp
      from 8(1)[OF Cons True this] Cons True show ?thesis by simp
    next
      case False
      with Cons show ?thesis by simp
    qed
  qed
next
  case (9 a k s caps)
  from 9(3) have n: "bt k s caps = None" by (auto split: option.splits)
  from 9(1)[OF n] have n': "bt k s c' = None" .
  show ?case
  proof (cases s)
    case Nil
    with n' show ?thesis by simp
  next
    case (Cons x t)
    show ?thesis
    proof (cases "atom_ok a x")
      case True
      with 9(3) n Cons have "bt (LazyMore a # k) t caps = None" by simp
      from 9(2)[OF n Cons True this] n' Cons True show ?thesis by simp
    next
      case False
      with n' Cons show ?thesis by simp
    qed
  qed
next
  case (10 a k s caps)
  from 10(2) have "bt (R a # Close s # k) s caps = None" by simp
  from 10(1)[OF this] show ?case by simp
next
  case (11 s0 k s caps)
  from 11(2) have "bt k s (caps @ [take (length s0 - length s) s0]) = None" by simp
  from 11(1)[OF this] show ?case by simp
qed

lemma bt_success_caps: "bt k s c \<noteq> None \<Longrightarrow> bt k s c' \<noteq> None"
  using bt_None_caps[of k s c' c] by (cases "bt k s c'") auto

lemma bt_LazyMore_complete:
  "list_all (atom_ok a) w \<Longrightarrow> bt k rest c' \<noteq> None \<Longrightarrow> bt (LazyMore a # k) (w @ rest) c \<noteq> None"
proof (induction w)
  case Nil
  then have "bt k rest c \<noteq> None" using bt_success_caps[of k rest c' c] by simp
  then show ?case by auto
next
  case (Cons x w)
  then have "bt (LazyMore a # k) (w @ rest) c \<noteq> None" "atom_ok a x" by auto
  then show ?case by (cases "bt k (x # w @ rest) c") auto
qed

lemma bt_complete:
  "sem r w rest g \<Longrightarrow> bt k rest c' \<noteq> None \<Longrightarrow> bt (R r # k) (w @ rest) c \<noteq> None"
proof (induction arbitrary: k c c' rule: sem.induct)
  case (sem_Lit l rest)
  then have "bt k rest c \<noteq> None" using bt_success_caps[of k rest c' c] by simp
  then show ?case by simp
next
  case (sem_One a x rest)
  then have "bt k rest c \<noteq> None" using bt_success_caps[of k rest c' c] by simp
  with sem_One show ?case by simp
next
  case (sem_Eos rest)
  then have "bt k rest c \<noteq> None" using bt_success_caps[of k rest c' c] by simp
  with sem_Eos show ?case by auto
next
  case (sem_Seq a w1 w2 rest g1 b g2)
  from sem_Seq.IH(2)[OF sem_Seq.prems] have "bt (R b # k) (w2 @ rest) c \<noteq> None" .
  from sem_Seq.IH(1)[OF this] show ?case by simp
next
  case (sem_AltL a w rest g b)
  from sem_AltL.IH[OF sem_AltL.prems] have "bt (R a # k) (w @ rest) c \<noteq> None" .
  then show ?case by auto
next
  case (sem_AltR b w rest g a)
  from sem_AltR.IH[OF sem_AltR.prems] have "bt (R b # k) (w @ rest) c \<noteq> None" .
  then show ?case by (cases "bt (R a # k) (w @ rest) c") auto
next
  case (sem_OptSome a w rest g)
  from sem_OptSome.IH[OF sem_OptSome.prems] have "bt (R a # k) (w @ rest) c \<noteq> None" .
  then show ?case by auto
next
  case (sem_OptNone a rest)
  then have "bt k rest c \<noteq> None" using bt_success_caps[of k rest c' c] by simp
  then show ?case by (cases "bt (R a # k) rest c") auto
next
  case (sem_LazyPlus w a rest)
  then obtain x t where w: "w = x # t" "atom_ok a x" "list_all (atom_ok a) t" by (cases w) auto
  from bt_LazyMore_complete[OF w(3) sem_LazyPlus.prems]
  have "bt (LazyMore a # k) (t @ rest) c \<noteq> None" .
  with w show ?case by simp
next
  case (sem_Grp a w rest g)
  from sem_Grp.prems have "bt k rest (c @ [take (length (w @ rest) - length rest) (w @ rest)]) \<noteq> None"
    by (rule bt_success_caps)
  then have "bt (Close (w @ rest) # k) rest c \<noteq> None" by simp
  from sem_Grp.IH[OF this] show ?case by simp
qed

lemma re_search_complete:
  "sem p w rest g \<Longrightarrow> re_search p (pre @ w @ rest) \<noteq> None"
proof (induction pre)
  case Nil
  have "bt [] rest [] \<noteq> None" by simp
  from bt_complete[OF Nil this] have "bt [R p] (w @ rest) [] \<noteq> None" .
  then show ?case by (subst re_search.simps) auto
next
  case (Cons x pre)
  then have "re_search p (pre @ w @ rest) \<noteq> None" by simp
  then show ?case by (subst re_search.simps) (auto split: option.splits)
qed

lemma re_search_iff:
  "(re_search p s \<noteq> None) = (\<exists>pre w rest g. s = pre @ w @ rest \<and> sem p w rest g)"
proof
  assume "re_search p s \<noteq> None"
  then obtain m where "re_search p s = Some m" by auto
  from re_search_sound[OF this] show "\<exists>pre w rest g. s = pre @ w @ rest \<and> sem p w rest g" by blast
next
  assume "\<exists>pre w rest g. s = pre @ w @ rest \<and> sem p w rest g"
  then show "re_search p s \<noteq> None" using re_search_complete by blast
qed

section \<open>Which rule fires\<close>

lemma scan_first_fire:
  "i < length rs \<Longrightarrow>
   \<forall>j<i. re_search (pattern (rs ! j)) (py_strip q) = None \<Longrightarrow>
   re_search (pattern (rs ! i)) (py_strip q) = Some m \<Longrightarrow>
   template (rs ! i) (groups m) = (printed, Inr cypher) \<Longrightarrow>
   scan_rules rs q = (PrintGroups (groups m) # printed, Some cypher)"
proof (induction rs arbitrary: i)
  case Nil
  then show ?case by simp
next
  case (Cons r rs)
  show ?case
  proof (cases i)
    case 0
    with Cons.prems show ?thesis by simp
  next
    case (Suc n)
    with Cons.prems have none: "re_search (pattern r) (py_strip q) = None" by auto
    from Suc Cons.prems have "n < length rs"
      "\<forall>j<n. re_search (pattern (rs ! j)) (py_strip q) = None"
      "re_search (pattern (rs ! n)) (py_strip q) = Some m"
      "template (rs ! n) (groups m) = (printed, Inr cypher)" by auto
    from Cons.IH[OF this] none show ?thesis by simp
  qed
qed

lemma scan_none_fire:
  "\<forall>r \<in> set rs. re_search (pattern r) (py_strip q) = None \<Longrightarrow> scan_rules rs q = ([], None)"
  by (induction rs) auto

lemma set_py_strip: "set (py_strip s) \<subseteq> set s"
proof -
  have "set (py_strip s) \<subseteq> set (dropWhile py_isspace s)"
    unfolding py_strip_def using set_dropWhileD[of _ py_isspace "rev (dropWhile py_isspace s)"] by auto
  also have "\<dots> \<subseteq> set s" using set_dropWhileD[of _ py_isspace s] by auto
  finally show ?thesis .
qed

lemma sem_starts: "sem (Seq (Lit (c # l)) b) w rest g \<Longrightarrow> c \<in> set w"
  by (auto simp: sem_Seq_iff sem_Lit_iff)

lemma patterns_start_with_w:
  assumes "r \<in> set query_patterns" "sem (pattern r) w rest g"
  shows "CHR ''w'' \<in> set w"
proof -
  from assms(1) have "pattern r \<in> {pat_race_engineer, pat_race_engineer_reverse, pat_team,
      pat_champion, pat_dominant_team, pat_team_relative, pat_champion_relative,
      pat_dominant_team_relative}"
    by (auto simp: query_patterns_def)
  then have "\<exists>l b. pattern r = Seq (Lit (CHR ''w'' # l)) b"
    by (auto simp: pat_race_engineer_def pat_race_engineer_reverse_def pat_team_def
        pat_champion_def pat_dominant_team_def pat_team_relative_def pat_champion_relative_def
        pat_dominant_team_relative_def)
  with assms(2) show ?thesis by (auto dest: sem_starts)
qed

lemma no_w_no_rule:
  assumes "CHR ''w'' \<notin> set q" "r \<in> set query_patterns"
  shows "re_search (pattern r) (py_strip q) = None"
proof (rule ccontr)
  assume "re_search (pattern r) (py_strip q) \<noteq> None"
  then obtain m where "re_search (pattern r) (py_strip q) = Some m" by auto
  from re_search_sound[OF this] obtain pre rest where
    s: "py_strip q = pre @ group0 m @ rest" "sem (pattern r) (group0 m) rest (groups m)" by blast
  from patterns_start_with_w[OF assms(2) s(2)] s(1) have "CHR ''w'' \<in> set (py_strip q)" by simp
  with set_py_strip[of q] assms(1) show False by auto
qed

text \<open>
  Claim C3, as the code has it. The rules are scanned in the order of registration, and
  the first rule whose pattern is found in the stripped question has its groups handed,
  in their order, to its handler, whose query is the result. A pattern is found exactly
  when some stretch of the text is matched by it; the letters of a pattern match
  themselves only, there is no folding of case. Every pattern begins with a lower-case
  \<open>w\<close>, so a question without that letter (one written in capitals, say) fires no rule.
\<close>

theorem first_firing_rule_wins:
  "(i < length query_patterns \<longrightarrow>
      (\<forall>j<i. re_search (pattern (query_patterns ! j)) (py_strip q) = None) \<longrightarrow>
      re_search (pattern (query_patterns ! i)) (py_strip q) = Some m \<longrightarrow>
      template (query_patterns ! i) (groups m) = (printed, Inr cypher) \<longrightarrow>
      rule_based_query q = (PrintTrying q # PrintGroups (groups m) # printed, Some cypher))
   \<and> (re_search p s \<noteq> None) = (\<exists>pre w rest g. s = pre @ w @ rest \<and> sem p w rest g)
   \<and> (CHR ''w'' \<notin> set q' \<longrightarrow> rule_based_query q' = ([PrintTrying q'], None))"
proof (intro conjI impI)
  assume "i < length query_patterns"
    "\<forall>j<i. re_search (pattern (query_patterns ! j)) (py_strip q) = None"
    "re_search (pattern (query_patterns ! i)) (py_strip q) = Some m"
    "template (query_patterns ! i) (groups m) = (printed, Inr cypher)"
  then have "scan_rules query_patterns q = (PrintGroups (groups m) # printed, Some cypher)"
    by (rule scan_first_fire)
  then show "rule_based_query q = (PrintTrying q # PrintGroups (groups m) # printed, Some cypher)"
    by (simp add: rule_based_query_def)
next
  show "(re_search p s \<noteq> None) = (\<exists>pre w rest g. s = pre @ w @ rest \<and> sem p w rest g)"
    by (rule re_search_iff)
next
  assume "CHR ''w'' \<notin> set q'"
  then have "\<forall>r \<in> set query_patterns. re_search (pattern r) (py_strip q') = None"
    using no_w_no_rule by blast
  then have "scan_rules query_patterns q' = ([], None)" by (rule scan_none_fire)
  then show "rule_based_query q' = ([PrintTrying q'], None)" by (simp add: rule_based_query_def)
qed

text \<open>The theorem at the championship question, in lower case and in capitals.\<close>

theorem first_firing_rule_wins_witness:
  "rule_based_query ''who won the championship in 2017?'' =
     ([PrintTrying ''who won the championship in 2017?'', PrintGroups [''2017'']],
      Some (champion_query ''2017''))
   \<and> rule_based_query ''WHO WON THE CHAMPIONSHIP IN 2017?'' =
     ([PrintTrying ''WHO WON THE CHAMPIONSHIP IN 2017?''], None)"
proof -
  let ?q = "''who won the championship in 2017?''"
  let ?m = "\<lparr>group0 = ?q, groups = [''2017'']\<rparr>"
  have l: "(3::nat) < length query_patterns" by (simp add: query_patterns_def)
  have n0: "re_search (pattern (query_patterns ! 0)) (py_strip ?q) = None" by code_simp
  have n1: "re_search (pattern (query_patterns ! 1)) (py_strip ?q) = None" by code_simp
  have n2: "re_search (pattern (query_patterns ! 2)) (py_strip ?q) = None" by code_simp
  have n: "\<forall>j<3. re_search (pattern (query_patterns ! j)) (py_strip ?q) = None"
  proof (intro allI impI)
    fix j :: nat assume "j < 3"
    then have "j = 0 \<or> j = 1 \<or> j = 2" by arith
    with n0 n1 n2 show "re_search (pattern (query_patterns ! j)) (py_strip ?q) = None" by auto
  qed
  have f: "re_search (pattern (query_patterns ! 3)) (py_strip ?q) = Some ?m" by code_simp
  have t: "template (query_patterns ! 3) (groups ?m) = ([], Inr (champion_query ''2017''))"
    by (simp add: query_patterns_def call1_def)
  have w: "CHR ''w'' \<notin> set ''WHO WON THE CHAMPIONSHIP IN 2017?''" by simp
  from first_firing_rule_wins[of 3 ?q ?m "[]" "champion_query ''2017''" _ _ "''WHO WON THE CHAMPIONSHIP IN 2017?''"]
    l n f t w
  show ?thesis by simp
qed

text \<open>
  Claim C3 fails as stated: a question that differs from the championship pattern in the
  case of its first letter only fires no rule, while the same question in lower case
  fires the championship rule.
\<close>

theorem case_sensitive_counterexample:
  "snd (rule_based_query ''Who won the championship in 2017?'') = None
   \<and> snd (rule_based_query ''who won the championship in 2017?'') = Some (champion_query ''2017'')"
  by code_simp

section \<open>The lines of a query\<close>

lemma py_split_nl_nonempty: "py_split_nl s \<noteq> []"
  by (induction s) (auto split: list.splits)

lemma py_split_nl_append:
  "nl \<notin> set l \<Longrightarrow> py_split_nl (l @ s) = (l @ hd (py_split_nl s)) # tl (py_split_nl s)"
proof (induction l)
  case Nil
  then show ?case using py_split_nl_nonempty[of s] by simp
next
  case (Cons c l)
  then show ?case by auto
qed

lemma py_split_nl_block:
  "\<forall>l \<in> set ls. nl \<notin> set l \<Longrightarrow>
   py_split_nl (block n ls) = [] # map (\<lambda>l. replicate n (CHR '' '') @ l) ls @ [replicate n (CHR '' '')]"
proof (induction ls)
  case Nil
  have "nl \<notin> set (replicate n (CHR '' ''))" by (auto simp: nl_def)
  from py_split_nl_append[OF this, of "[]"] show ?case by (simp add: block_def)
next
  case (Cons l ls)
  then have IH: "py_split_nl (block n ls) = [] # map (\<lambda>l. replicate n (CHR '' '') @ l) ls @ [replicate n (CHR '' '')]"
    by simp
  from Cons.prems have "nl \<notin> set (replicate n (CHR '' '') @ l)" by (auto simp: nl_def)
  from py_split_nl_append[OF this, of "block n ls"] IH
  have "py_split_nl ((replicate n (CHR '' '') @ l) @ block n ls)
        = (replicate n (CHR '' '') @ l) # map (\<lambda>l. replicate n (CHR '' '') @ l) ls @ [replicate n (CHR '' '')]"
    by simp
  moreover have "block n (l # ls) = nl # (replicate n (CHR '' '') @ l) @ block n ls"
    by (simp add: block_def)
  ultimately show ?case by simp
qed

lemma dropWhile_spaces: "dropWhile py_isspace (replicate n (CHR '' '') @ l) = dropWhile py_isspace l"
  by (induction n) (auto simp: py_isspace_def)

lemma py_strip_spaces: "py_strip (replicate n (CHR '' '') @ l) = py_strip l"
  by (simp add: py_strip_def dropWhile_spaces)

lemma py_strip_clean: "clean_line l \<Longrightarrow> py_strip l = l"
proof -
  assume c: "clean_line l"
  then have 1: "dropWhile py_isspace l = l" by (cases l) (auto simp: clean_line_def)
  from c have "rev l \<noteq> []" "\<not> py_isspace (hd (rev l))" by (auto simp: clean_line_def hd_rev)
  then have "dropWhile py_isspace (rev l) = rev l" by (cases "rev l") auto
  with 1 show ?thesis by (simp add: py_strip_def)
qed

lemma py_strip_only_spaces: "py_strip (replicate n (CHR '' '')) = []"
proof -
  have "py_strip (replicate n (CHR '' '') @ []) = py_strip []" by (rule py_strip_spaces)
  moreover have "py_strip [] = []" by (simp add: py_strip_def)
  ultimately show ?thesis by simp
qed

lemma query_lines_block:
  assumes "list_all clean_line ls"
  shows "query_lines (block n ls) = [] # ls @ [[]]"
proof -
  from assms have "\<forall>l \<in> set ls. nl \<notin> set l" by (auto simp: list_all_iff clean_line_def)
  then have "query_lines (block n ls) = py_strip [] # map (\<lambda>l. py_strip (replicate n (CHR '' '') @ l)) ls
       @ [py_strip (replicate n (CHR '' ''))]"
    by (simp add: query_lines_def py_split_nl_block comp_def)
  also have "map (\<lambda>l. py_strip (replicate n (CHR '' '') @ l)) ls = ls"
    using assms by (induction ls) (auto simp: py_strip_spaces py_strip_clean)
  finally show ?thesis by (simp add: py_strip_only_spaces) (simp add: py_strip_def)
qed

lemma nl_not_digit: "\<not> py_isdigit nl"
  by (simp add: py_isdigit_def nl_def)

lemma year4_clean: "year4 y \<Longrightarrow> nl \<notin> set y \<and> y \<noteq> [] \<and> \<not> py_isspace (last y)"
proof -
  assume "year4 y"
  then obtain a b c d where y: "y = [a, b, c, d]" "py_isdigit a" "py_isdigit b" "py_isdigit c" "py_isdigit d"
    using year4_cases by blast
  then have "a \<noteq> nl" "b \<noteq> nl" "c \<noteq> nl" "d \<noteq> nl" using nl_not_digit by auto
  with y show ?thesis by (simp add: digit_not_space)
qed

lemma digit_char_digit: "d < 10 \<Longrightarrow> py_isdigit (digit_char d)"
proof -
  assume "d < 10"
  then have "d < length ''0123456789''" by simp
  then have "''0123456789'' ! d \<in> set ''0123456789''" by (rule nth_mem)
  then show ?thesis by (simp only: digit_char_def py_isdigit_def)
qed

lemma str_nat_digits: "str_nat n \<noteq> [] \<and> list_all py_isdigit (str_nat n)"
proof (induction n rule: str_nat.induct)
  case (1 n)
  show ?case
  proof (cases "n < 10")
    case True
    then show ?thesis by (subst (1 2) str_nat.simps) (simp add: digit_char_digit)
  next
    case False
    then have "n mod 10 < 10" by simp
    with False 1 show ?thesis by (subst (1 2) str_nat.simps) (simp add: digit_char_digit)
  qed
qed

lemma str_int_clean:
  "str_int i \<noteq> [] \<and> nl \<notin> set (str_int i) \<and> \<not> py_isspace (last (str_int i))"
proof -
  have ne: "str_nat n \<noteq> []" and dg: "list_all py_isdigit (str_nat n)" for n
    using str_nat_digits by auto
  have a: "nl \<notin> set (str_nat n)" for n
    using dg[of n] nl_not_digit by (auto simp: list_all_iff)
  have "last (str_nat n) \<in> set (str_nat n)" for n using ne by simp
  then have b: "\<not> py_isspace (last (str_nat n))" for n
    using dg[of n] digit_not_space by (auto simp: list_all_iff)
  show ?thesis using ne a b by (auto simp: str_int_def nl_def)
qed

lemma team_query_lines:
  assumes "name_ok n" "year4 y"
  shows "query_lines (team_query n y) =
      [[],
       ''MATCH (driver:Entity {name: '' @ [apos] @ n @ [apos] @ ''})-[r:RELATION]->(team:Entity)'',
       ''WHERE (r.type CONTAINS 'drove' OR r.type CONTAINS 'team' OR r.type CONTAINS 'race')'',
       ''AND r.year = '' @ y,
       ''RETURN team.name as answer, r.year as year'',
       []]"
proof -
  have "list_all clean_line
       [''MATCH (driver:Entity {name: '' @ [apos] @ n @ [apos] @ ''})-[r:RELATION]->(team:Entity)'',
        ''WHERE (r.type CONTAINS 'drove' OR r.type CONTAINS 'team' OR r.type CONTAINS 'race')'',
        ''AND r.year = '' @ y,
        ''RETURN team.name as answer, r.year as year'']"
    using assms year4_clean[of y]
    by (simp add: clean_line_def py_isspace_def nl_def apos_def name_ok_def)
  then show ?thesis unfolding team_query_def by (simp add: query_lines_block)
qed

lemma champion_query_lines:
  assumes "year4 y"
  shows "query_lines (champion_query y) =
      [[],
       ''MATCH (driver:Entity)-[r:RELATION]->(championship:Entity)'',
       ''WHERE (r.type CONTAINS 'champion' OR r.type CONTAINS 'won')'',
       ''AND r.year = '' @ y,
       ''RETURN driver.name as answer, r.year as year'',
       []]"
proof -
  have "list_all clean_line
       [''MATCH (driver:Entity)-[r:RELATION]->(championship:Entity)'',
        ''WHERE (r.type CONTAINS 'champion' OR r.type CONTAINS 'won')'',
        ''AND r.year = '' @ y,
        ''RETURN driver.name as answer, r.year as year'']"
    using assms year4_clean[of y]
    by (simp add: clean_line_def py_isspace_def nl_def)
  then show ?thesis unfolding champion_query_def by (simp add: query_lines_block)
qed

lemma dominant_team_query_lines:
  assumes "year4 y"
  shows "query_lines (dominant_team_query y) =
      [[],
       ''MATCH (team:Entity)-[r:RELATION]->(achievement:Entity)'',
       ''WHERE r.year = '' @ y,
       ''AND (r.type CONTAINS 'won' OR r.type CONTAINS 'champion' OR r.type CONTAINS 'dominated')'',
       ''RETURN team.name as answer, count(r) as dominance_score'',
       ''ORDER BY dominance_score DESC'',
       ''LIMIT 1'',
       []]"
proof -
  have "list_all clean_line
       [''MATCH (team:Entity)-[r:RELATION]->(achievement:Entity)'',
        ''WHERE r.year = '' @ y,
        ''AND (r.type CONTAINS 'won' OR r.type CONTAINS 'champion' OR r.type CONTAINS 'dominated')'',
        ''RETURN team.name as answer, count(r) as dominance_score'',
        ''ORDER BY dominance_score DESC'',
        ''LIMIT 1'']"
    using assms year4_clean[of y]
    by (simp add: clean_line_def py_isspace_def nl_def)
  then show ?thesis unfolding dominant_team_query_def by (simp add: query_lines_block)
qed

lemma reverse_during_lines:
  assumes "name_ok n" "year4 y"
  shows "\<exists>c. race_engineer_reverse_relative_query n ''during'' y = ([PrintArgs n ''during'' y], Inr c)
     \<and> query_lines c =
      [[],
       ''MATCH (engineer:Entity {name: '' @ [apos] @ n @ [apos] @ ''})-[r:RELATION]->(driver:Entity)'',
       ''WHERE r.type CONTAINS 'engineer' AND r.year = '' @ y,
       ''RETURN driver.name as answer, r.year as year'',
       []]"
proof -
  have "list_all clean_line
       [''MATCH (engineer:Entity {name: '' @ [apos] @ n @ [apos] @ ''})-[r:RELATION]->(driver:Entity)'',
        ''WHERE r.type CONTAINS 'engineer' AND r.year = '' @ y,
        ''RETURN driver.name as answer, r.year as year'']"
    using assms year4_clean[of y]
    by (simp add: clean_line_def py_isspace_def nl_def apos_def name_ok_def)
  then show ?thesis unfolding race_engineer_reverse_relative_query_def by (simp add: query_lines_block)
qed

lemma race_engineer_year_lines:
  assumes "name_ok n" "first_d4 c = Some ds" "dec_val ds \<noteq> 0"
  shows "\<exists>q. race_engineer_query n c = Inr q
     \<and> query_lines q =
      [[],
       ''MATCH (driver:Entity {name: '' @ [apos] @ n @ [apos] @ ''})-[r:RELATION]->(engineer:Entity)'',
       ''WHERE r.type CONTAINS 'engineer' AND r.year = '' @ str_int (int (dec_val ds)),
       ''RETURN engineer.name as answer, r.year as year'',
       []]"
proof -
  have "list_all clean_line
       [''MATCH (driver:Entity {name: '' @ [apos] @ n @ [apos] @ ''})-[r:RELATION]->(engineer:Entity)'',
        ''WHERE r.type CONTAINS 'engineer' AND r.year = '' @ str_int (int (dec_val ds)),
        ''RETURN engineer.name as answer, r.year as year'']"
    using assms str_int_clean[of "int (dec_val ds)"]
    by (simp add: clean_line_def py_isspace_def nl_def apos_def name_ok_def)
  then show ?thesis using assms(2,3)
    unfolding race_engineer_query_def by (simp add: query_lines_block first_year_eq truthy_year_def)
qed

lemma reverse_groups:
  assumes "re_search pat_race_engineer_reverse s = Some m"
  shows "\<exists>n r y. groups m = [n, r, y] \<and> name_ok n \<and> year4 y"
  using re_search_sound[OF assms] groups_race_engineer_reverse by blast

lemma reverse_during_match:
  assumes "re_search pat_race_engineer_reverse s = Some m" "groups m ! 1 = ''during''"
  shows "\<exists>p c. template (query_patterns ! 1) (groups m) = (p, Inr c)
     \<and> (''WHERE r.type CONTAINS 'engineer' AND r.year = '' @ groups m ! 2) \<in> set (query_lines c)
     \<and> clause_lines ''ORDER BY'' c = []
     \<and> clause_lines ''LIMIT'' c = []"
proof -
  from reverse_groups[OF assms(1)] assms(2) obtain n y where
    g: "groups m = [n, ''during'', y]" "name_ok n" "year4 y" by auto
  from reverse_during_lines[OF g(2,3)] obtain c where
    c: "race_engineer_reverse_relative_query n ''during'' y = ([PrintArgs n ''during'' y], Inr c)"
    and l: "query_lines c =
      [[],
       ''MATCH (engineer:Entity {name: '' @ [apos] @ n @ [apos] @ ''})-[r:RELATION]->(driver:Entity)'',
       ''WHERE r.type CONTAINS 'engineer' AND r.year = '' @ y,
       ''RETURN driver.name as answer, r.year as year'',
       []]" by blast
  have t: "template (query_patterns ! 1) (groups m) = ([PrintArgs n ''during'' y], Inr c)"
    using g(1) c by (simp add: query_patterns_def call3_def)
  show ?thesis using t l g(1) by (simp add: clause_lines_def)
qed

text \<open>
  Claim C10. A relation other than \<open>before\<close> and \<open>after\<close> (\<open>during\<close>, say) makes
  \<open>_build_temporal_filter\<close> write the equality \<open>r.year = <year>\<close>. A question on which the
  reverse race-engineer rule fires with the keyword \<open>during\<close> gets a query whose \<open>WHERE\<close>
  line ends in the equality on the captured year, with no \<open>ORDER BY\<close> line and no \<open>LIMIT\<close>
  line.
\<close>

theorem during_gives_equality_filter:
  "(temporal_relation \<noteq> ''before'' \<longrightarrow> temporal_relation \<noteq> ''after'' \<longrightarrow>
      build_temporal_filter year temporal_relation = ''r.year = '' @ str_int year)
   \<and> (re_search pat_race_engineer (py_strip q) = None \<longrightarrow>
      re_search pat_race_engineer_reverse (py_strip q) = Some m \<longrightarrow>
      groups m ! 1 = ''during'' \<longrightarrow>
      (\<exists>cypher. snd (rule_based_query q) = Some cypher
         \<and> (''WHERE r.type CONTAINS 'engineer' AND r.year = '' @ groups m ! 2) \<in> set (query_lines cypher)
         \<and> clause_lines ''ORDER BY'' cypher = []
         \<and> clause_lines ''LIMIT'' cypher = []))"
proof (intro conjI impI)
  assume "temporal_relation \<noteq> ''before''" "temporal_relation \<noteq> ''after''"
  then show "build_temporal_filter year temporal_relation = ''r.year = '' @ str_int year"
    by (simp add: build_temporal_filter_def)
next
  assume n: "re_search pat_race_engineer (py_strip q) = None"
    and f: "re_search pat_race_engineer_reverse (py_strip q) = Some m"
    and d: "groups m ! 1 = ''during''"
  from reverse_during_match[OF f d] obtain p c where
    t: "template (query_patterns ! 1) (groups m) = (p, Inr c)"
    and props: "(''WHERE r.type CONTAINS 'engineer' AND r.year = '' @ groups m ! 2) \<in> set (query_lines c)"
      "clause_lines ''ORDER BY'' c = []" "clause_lines ''LIMIT'' c = []" by blast
  have "(1::nat) < length query_patterns" by (simp add: query_patterns_def)
  moreover have "\<forall>j<1. re_search (pattern (query_patterns ! j)) (py_strip q) = None"
    using n by (simp add: query_patterns_def)
  moreover have "re_search (pattern (query_patterns ! 1)) (py_strip q) = Some m"
    using f by (simp add: query_patterns_def)
  ultimately have "scan_rules query_patterns q = (PrintGroups (groups m) # p, Some c)"
    using t by (rule scan_first_fire)
  then have "snd (rule_based_query q) = Some c" by (simp add: snd_rule_based_query)
  with props show "\<exists>cypher. snd (rule_based_query q) = Some cypher
         \<and> (''WHERE r.type CONTAINS 'engineer' AND r.year = '' @ groups m ! 2) \<in> set (query_lines cypher)
         \<and> clause_lines ''ORDER BY'' cypher = []
         \<and> clause_lines ''LIMIT'' cypher = []" by blast
qed

text \<open>The theorem at a question with \<open>during 2020\<close>.\<close>

theorem during_gives_equality_filter_witness:
  "build_temporal_filter 2020 ''during'' = ''r.year = '' @ str_int 2020
   \<and> (\<exists>cypher. snd (rule_based_query ''who was Peter Bonnington race engineer for during 2020?'') = Some cypher
         \<and> ''WHERE r.type CONTAINS 'engineer' AND r.year = 2020'' \<in> set (query_lines cypher)
         \<and> clause_lines ''ORDER BY'' cypher = []
         \<and> clause_lines ''LIMIT'' cypher = [])"
proof -
  let ?q = "''who was Peter Bonnington race engineer for during 2020?''"
  let ?m = "\<lparr>group0 = ?q, groups = [''Peter Bonnington'', ''during'', ''2020'']\<rparr>"
  have n: "re_search pat_race_engineer (py_strip ?q) = None" by code_simp
  have f: "re_search pat_race_engineer_reverse (py_strip ?q) = Some ?m" by code_simp
  have d: "groups ?m ! 1 = ''during''" by simp
  have r: "''during'' \<noteq> ''before''" "''during'' \<noteq> ''after''" by simp_all
  from during_gives_equality_filter[of "''during''" 2020 ?q ?m] n f d r
  show ?thesis by simp
qed

text \<open>
  Claim C7 fails as stated: the query of the dominant-team handler for a year ends in a
  limit of one row.
\<close>

theorem dominant_team_limit_counterexample:
  "snd (rule_based_query ''which team dominated the 2020 season?'') = Some (dominant_team_query ''2020'')
   \<and> clause_lines ''LIMIT'' (dominant_team_query ''2020'') = [''LIMIT 1'']"
  by code_simp

text \<open>
  Claim C7, as the code has it. Whenever a rule with an absolute year finds its pattern,
  the query of its handler has the equality filter on the year: for the race-engineer
  rule on the value of the first four digits of its context (when there are four digits,
  not all zero), for the other rules on the captured year as it is written. The queries
  of the race-engineer, reverse race-engineer (\<open>during\<close>), team and championship rules
  have no \<open>ORDER BY\<close> and no \<open>LIMIT\<close> line; the query of the dominant-team rule is ordered by
  \<open>dominance_score\<close>, descending, and limited to one row.
\<close>

theorem absolute_year_queries:
  "(re_search pat_race_engineer s0 = Some m0 \<longrightarrow> first_d4 (groups m0 ! 1) = Some ds \<longrightarrow> dec_val ds \<noteq> 0 \<longrightarrow>
      (\<exists>c. template (query_patterns ! 0) (groups m0) = ([], Inr c)
         \<and> (''WHERE r.type CONTAINS 'engineer' AND r.year = '' @ str_int (int (dec_val ds))) \<in> set (query_lines c)
         \<and> clause_lines ''ORDER BY'' c = [] \<and> clause_lines ''LIMIT'' c = []))
   \<and> (re_search pat_race_engineer_reverse s1 = Some m1 \<longrightarrow> groups m1 ! 1 = ''during'' \<longrightarrow>
      (\<exists>p c. template (query_patterns ! 1) (groups m1) = (p, Inr c)
         \<and> (''WHERE r.type CONTAINS 'engineer' AND r.year = '' @ groups m1 ! 2) \<in> set (query_lines c)
         \<and> clause_lines ''ORDER BY'' c = [] \<and> clause_lines ''LIMIT'' c = []))
   \<and> (re_search pat_team s2 = Some m2 \<longrightarrow>
      (\<exists>c. template (query_patterns ! 2) (groups m2) = ([], Inr c)
         \<and> (''AND r.year = '' @ groups m2 ! 1) \<in> set (query_lines c)
         \<and> clause_lines ''ORDER BY'' c = [] \<and> clause_lines ''LIMIT'' c = []))
   \<and> (re_search pat_champion s3 = Some m3 \<longrightarrow>
      (\<exists>c. template (query_patterns ! 3) (groups m3) = ([], Inr c)
         \<and> (''AND r.year = '' @ groups m3 ! 0) \<in> set (query_lines c)
         \<and> clause_lines ''ORDER BY'' c = [] \<and> clause_lines ''LIMIT'' c = []))
   \<and> (re_search pat_dominant_team s4 = Some m4 \<longrightarrow>
      (\<exists>c. template (query_patterns ! 4) (groups m4) = ([], Inr c)
         \<and> (''WHERE r.year = '' @ groups m4 ! 0) \<in> set (query_lines c)
         \<and> clause_lines ''ORDER BY'' c = [''ORDER BY dominance_score DESC'']
         \<and> clause_lines ''LIMIT'' c = [''LIMIT 1'']))"
proof (intro conjI impI)
  assume f: "re_search pat_race_engineer s0 = Some m0" and y: "first_d4 (groups m0 ! 1) = Some ds" "dec_val ds \<noteq> 0"
  from re_search_sound[OF f] groups_race_engineer obtain n c where
    g: "groups m0 = [n, c]" "name_ok n" by blast
  with y have "first_d4 c = Some ds" by simp
  from race_engineer_year_lines[OF g(2) this y(2)] obtain q where
    "race_engineer_query n c = Inr q" "query_lines q =
      [[],
       ''MATCH (driver:Entity {name: '' @ [apos] @ n @ [apos] @ ''})-[r:RELATION]->(engineer:Entity)'',
       ''WHERE r.type CONTAINS 'engineer' AND r.year = '' @ str_int (int (dec_val ds)),
       ''RETURN engineer.name as answer, r.year as year'',
       []]" by blast
  with g(1) show "\<exists>c. template (query_patterns ! 0) (groups m0) = ([], Inr c)
         \<and> (''WHERE r.type CONTAINS 'engineer' AND r.year = '' @ str_int (int (dec_val ds))) \<in> set (query_lines c)
         \<and> clause_lines ''ORDER BY'' c = [] \<and> clause_lines ''LIMIT'' c = []"
    by (simp add: query_patterns_def call2_def clause_lines_def)
next
  assume "re_search pat_race_engineer_reverse s1 = Some m1" "groups m1 ! 1 = ''during''"
  then show "\<exists>p c. template (query_patterns ! 1) (groups m1) = (p, Inr c)
         \<and> (''WHERE r.type CONTAINS 'engineer' AND r.year = '' @ groups m1 ! 2) \<in> set (query_lines c)
         \<and> clause_lines ''ORDER BY'' c = [] \<and> clause_lines ''LIMIT'' c = []"
    by (rule reverse_during_match)
next
  assume f: "re_search pat_team s2 = Some m2"
  from re_search_sound[OF f] groups_team obtain n y where
    g: "groups m2 = [n, y]" "name_ok n" "year4 y" by blast
  from team_query_lines[OF g(2,3)] g(1)
  show "\<exists>c. template (query_patterns ! 2) (groups m2) = ([], Inr c)
         \<and> (''AND r.year = '' @ groups m2 ! 1) \<in> set (query_lines c)
         \<and> clause_lines ''ORDER BY'' c = [] \<and> clause_lines ''LIMIT'' c = []"
    by (simp add: query_patterns_def call2_def clause_lines_def)
next
  assume f: "re_search pat_champion s3 = Some m3"
  from re_search_sound[OF f] groups_champion obtain y where
    g: "groups m3 = [y]" "year4 y" by blast
  from champion_query_lines[OF g(2)] g(1)
  show "\<exists>c. template (query_patterns ! 3) (groups m3) = ([], Inr c)
         \<and> (''AND r.year = '' @ groups m3 ! 0) \<in> set (query_lines c)
         \<and> clause_lines ''ORDER BY'' c = [] \<and> clause_lines ''LIMIT'' c = []"
    by (simp add: query_patterns_def call1_def clause_lines_def)
next
  assume f: "re_search pat_dominant_team s4 = Some m4"
  from re_search_sound[OF f] groups_dominant_team obtain y where
    g: "groups m4 = [y]" "year4 y" by blast
  from dominant_team_query_lines[OF g(2)] g(1)
  show "\<exists>c. template (query_patterns ! 4) (groups m4) = ([], Inr c)
         \<and> (''WHERE r.year = '' @ groups m4 ! 0) \<in> set (query_lines c)
         \<and> clause_lines ''ORDER BY'' c = [''ORDER BY dominance_score DESC'']
         \<and> clause_lines ''LIMIT'' c = [''LIMIT 1'']"
    by (simp add: query_patterns_def call1_def clause_lines_def)
qed

text \<open>The theorem at one question for each of the five rules.\<close>

theorem absolute_year_queries_witness:
  "(\<exists>c. template (query_patterns ! 0) [''Lewis Hamilton'', ''2017''] = ([], Inr c)
      \<and> ''WHERE r.type CONTAINS 'engineer' AND r.year = 2017'' \<in> set (query_lines c)
      \<and> clause_lines ''ORDER BY'' c = [] \<and> clause_lines ''LIMIT'' c = [])
   \<and> (\<exists>p c. template (query_patterns ! 1) [''Peter Bonnington'', ''during'', ''2020''] = (p, Inr c)
      \<and> ''WHERE r.type CONTAINS 'engineer' AND r.year = 2020'' \<in> set (query_lines c)
      \<and> clause_lines ''ORDER BY'' c = [] \<and> clause_lines ''LIMIT'' c = [])
   \<and> (\<exists>c. template (query_patterns ! 2) [''Max Verstappen'', ''2020''] = ([], Inr c)
      \<and> ''AND r.year = 2020'' \<in> set (query_lines c)
      \<and> clause_lines ''ORDER BY'' c = [] \<and> clause_lines ''LIMIT'' c = [])
   \<and> (\<exists>c. template (query_patterns ! 3) [''2017''] = ([], Inr c)
      \<and> ''AND r.year = 2017'' \<in> set (query_lines c)
      \<and> clause_lines ''ORDER BY'' c = [] \<and> clause_lines ''LIMIT'' c = [])
   \<and> (\<exists>c. template (query_patterns ! 4) [''2020''] = ([], Inr c)
      \<and> ''WHERE r.year = 2020'' \<in> set (query_lines c)
      \<and> clause_lines ''ORDER BY'' c = [''ORDER BY dominance_score DESC'']
      \<and> clause_lines ''LIMIT'' c = [''LIMIT 1''])"
proof -
  let ?s0 = "''who was Lewis Hamilton's race engineer in 2017?''"
  let ?m0 = "\<lparr>group0 = ?s0, groups = [''Lewis Hamilton'', ''2017'']\<rparr>"
  let ?s1 = "''who was Peter Bonnington race engineer for during 2020?''"
  let ?m1 = "\<lparr>group0 = ?s1, groups = [''Peter Bonnington'', ''during'', ''2020'']\<rparr>"
  let ?s2 = "''what team did Max Verstappen drive for in 2020?''"
  let ?m2 = "\<lparr>group0 = ?s2, groups = [''Max Verstappen'', ''2020'']\<rparr>"
  let ?s3 = "''who won the championship in 2017?''"
  let ?m3 = "\<lparr>group0 = ?s3, groups = [''2017'']\<rparr>"
  let ?s4 = "''which team dominated the 2020 season?''"
  let ?m4 = "\<lparr>group0 = ?s4, groups = [''2020'']\<rparr>"
  have f0: "re_search pat_race_engineer ?s0 = Some ?m0" by code_simp
  have y0: "first_d4 (groups ?m0 ! 1) = Some ''2017''" by code_simp
  have v0: "dec_val ''2017'' \<noteq> 0" by code_simp
  have t0: "str_int (int (dec_val ''2017'')) = ''2017''" by code_simp
  have f1: "re_search pat_race_engineer_reverse ?s1 = Some ?m1" by code_simp
  have d1: "groups ?m1 ! 1 = ''during''" by simp
  have f2: "re_search pat_team ?s2 = Some ?m2" by code_simp
  have f3: "re_search pat_champion ?s3 = Some ?m3" by code_simp
  have f4: "re_search pat_dominant_team ?s4 = Some ?m4" by code_simp
  from absolute_year_queries[of ?s0 ?m0 "''2017''" ?s1 ?m1 ?s2 ?m2 ?s3 ?m3 ?s4 ?m4]
    f0 y0 v0 f1 d1 f2 f3 f4
  show ?thesis unfolding t0 by simp
qed

section \<open>The year of a context\<close>

lemma digit_val_le: "py_isdigit c \<Longrightarrow> digit_val c \<le> 9"
  by (auto simp: py_isdigit_def digit_val_def)

lemma dec_val_year4: "year4 ds \<Longrightarrow> dec_val ds \<le> 9999"
proof -
  assume "year4 ds"
  then obtain a b c d where ds: "ds = [a, b, c, d]" "py_isdigit a" "py_isdigit b" "py_isdigit c" "py_isdigit d"
    using year4_cases by blast
  from ds(2-5) have "digit_val a \<le> 9" "digit_val b \<le> 9" "digit_val c \<le> 9" "digit_val d \<le> 9"
    by (auto dest: digit_val_le)
  with ds(1) show ?thesis by (simp add: dec_val_def)
qed

text \<open>
  Claim C6, as the code has it. \<open>_parse_temporal_context\<close> never raises and returns the
  number written by the first four consecutive digits of the context, whatever that number
  is, or \<open>None\<close> when the context has no four consecutive digits. The only bounds on the
  year are those of four digits: 0 and 9999.
\<close>

theorem parse_temporal_context_any_year:
  "parse_temporal_context context = Inr (map_option (\<lambda>ds. int (dec_val ds)) (first_d4 context))
   \<and> (parse_temporal_context context = Inr (Some y) \<longrightarrow> 0 \<le> y \<and> y \<le> 9999)"
proof (intro conjI impI)
  show eq: "parse_temporal_context context = Inr (map_option (\<lambda>ds. int (dec_val ds)) (first_d4 context))"
    by (simp add: parse_temporal_context_def first_year_eq)
  assume "parse_temporal_context context = Inr (Some y)"
  with eq have "map_option (\<lambda>ds. int (dec_val ds)) (first_d4 context) = Some y" by simp
  then obtain ds where ds: "first_d4 context = Some ds" "y = int (dec_val ds)"
    by (cases "first_d4 context") auto
  from first_d4_year4[OF ds(1)] have "dec_val ds \<le> 9999" by (rule dec_val_year4)
  with ds(2) show "0 \<le> y" "y \<le> 9999" by simp_all
qed

text \<open>The theorem at a context whose first four digits are \<open>1234\<close>.\<close>

theorem parse_temporal_context_any_year_witness:
  "parse_temporal_context ''from 1234 to 2020'' = Inr (Some 1234) \<and> (0::int) \<le> 1234 \<and> (1234::int) \<le> 9999"
proof -
  have v: "map_option (\<lambda>ds. int (dec_val ds)) (first_d4 ''from 1234 to 2020'') = Some 1234" by code_simp
  from parse_temporal_context_any_year[of "''from 1234 to 2020''" 1234] v
  show ?thesis by simp
qed

text \<open>
  Claim C6 fails as stated: the contexts \<open>1234\<close> and \<open>9999\<close> resolve to the years 1234 and
  9999, which lie outside 1950 to 2030.
\<close>

theorem year_range_counterexample:
  "parse_temporal_context ''1234'' = Inr (Some 1234) \<and> parse_temporal_context ''9999'' = Inr (Some 9999)"
  by code_simp

section \<open>Execution\<close>

lemma collect_rows_iff: "(collect_rows result = Inr rows) = (result = map Inr rows)"
proof (induction result arbitrary: rows rule: collect_rows.induct)
  case 1
  show ?case by auto
next
  case (2 e rest)
  show ?case by auto
next
  case (3 r rest)
  show ?case
  proof (cases "collect_rows rest")
    case (Inl e)
    with 3[of "tl rows"] show ?thesis by (cases rows) auto
  next
    case (Inr rs)
    with 3[of rs] 3[of "tl rows"] show ?thesis by (cases rows) auto
  qed
qed

text \<open>
  Claim C9. \<open>execute_query\<close> returns the rows of the store when the query runs and every
  record is fetched; in every other case (the run raises, or a fetch does) it reports the
  error and returns the empty list. Its result is a list of rows in all cases.
\<close>

theorem execute_query_never_raises:
  "(drv cypher = Inr (map Inr rows) \<longrightarrow> execute_query drv cypher = ([], rows))
   \<and> ((\<forall>rows. drv cypher \<noteq> Inr (map Inr rows)) \<longrightarrow>
        (\<exists>e. execute_query drv cypher = ([PrintExecError e], [])))"
proof (intro conjI impI)
  assume "drv cypher = Inr (map Inr rows)"
  moreover have "collect_rows (map Inr rows) = Inr rows" by (simp add: collect_rows_iff)
  ultimately show "execute_query drv cypher = ([], rows)" by (simp add: execute_query_def)
next
  assume fail: "\<forall>rows. drv cypher \<noteq> Inr (map Inr rows)"
  show "\<exists>e. execute_query drv cypher = ([PrintExecError e], [])"
  proof (cases "drv cypher")
    case (Inl e)
    then show ?thesis by (simp add: execute_query_def)
  next
    case (Inr result)
    with fail have "\<forall>rows. collect_rows result \<noteq> Inr rows" by (simp add: collect_rows_iff)
    then obtain e where "collect_rows result = Inl e" by (cases "collect_rows result") auto
    with Inr show ?thesis by (simp add: execute_query_def)
  qed
qed

text \<open>The theorem at a store that answers with one row, and at a store that is down.\<close>

theorem execute_query_never_raises_witness:
  "execute_query (\<lambda>q. Inr [Inr [(''answer'', PStr ''Mercedes'')]]) ''MATCH (n) RETURN n''
     = ([], [[(''answer'', PStr ''Mercedes'')]])
   \<and> (\<exists>e. execute_query (\<lambda>q. Inl (StoreError ''connection refused'')) ''MATCH (n) RETURN n''
          = ([PrintExecError e], []))"
proof -
  let ?up = "\<lambda>q::string. (Inr [Inr [(''answer'', PStr ''Mercedes'')]] :: exn + (exn + row) list)"
  let ?down = "\<lambda>q::string. (Inl (StoreError ''connection refused'') :: exn + (exn + row) list)"
  have a: "?up ''MATCH (n) RETURN n'' = Inr (map Inr [[(''answer'', PStr ''Mercedes'')]])" by simp
  have b: "\<forall>rows. ?down ''MATCH (n) RETURN n'' \<noteq> Inr (map Inr rows)" by simp
  from execute_query_never_raises[of ?up "''MATCH (n) RETURN n''" "[[(''answer'', PStr ''Mercedes'')]]"] a
  have 1: "execute_query ?up ''MATCH (n) RETURN n'' = ([], [[(''answer'', PStr ''Mercedes'')]])" by blast
  from execute_query_never_raises[of ?down "''MATCH (n) RETURN n''"] b
  have 2: "\<exists>e. execute_query ?down ''MATCH (n) RETURN n'' = ([PrintExecError e], [])" by blast
  from 1 2 show ?thesis by blast
qed

section \<open>Formatting\<close>

lemma format_loop_renders:
  "[] \<notin> set rs \<Longrightarrow> format_loop rs answers = Inr (answers @ map render_among rs)"
proof (induction rs arbitrary: answers)
  case Nil
  show ?case by simp
next
  case (Cons r rs)
  then have IH: "\<And>answers. format_loop rs answers = Inr (answers @ map render_among rs)" by simp
  from Cons.prems obtain k v r' where r: "r = (k, v) # r'" by (cases r) auto
  show ?case
  proof (cases "map_of r ''answer''")
    case None
    with r show ?thesis by (simp add: IH render_among_def first_value_def)
  next
    case (Some a)
    then show ?thesis
      by (cases "map_of r ''year''") (simp_all add: IH render_among_def Let_def truthy_def)
  qed
qed

lemma format_loop_empty_row:
  "[] \<in> set rs \<Longrightarrow> format_loop rs answers = Inl IndexError"
proof (induction rs arbitrary: answers)
  case Nil
  then show ?case by simp
next
  case (Cons r rs)
  show ?case
  proof (cases "r = []")
    case True
    then show ?thesis by (simp add: first_value_def)
  next
    case False
    with Cons have IH: "\<And>answers. format_loop rs answers = Inl IndexError" by auto
    show ?thesis
      by (cases r) (auto simp: IH first_value_def Let_def split: option.splits)
  qed
qed

text \<open>
  Claim C8, as the code has it. Of a result with more than one row the first five rows
  are rendered and joined with \<open>"; "\<close>; a row with an \<open>answer\<close> and a true \<open>year\<close> is
  rendered as \<open><answer> (<year>)\<close>, without the word \<open>in\<close> of the one-row rendering, a row
  with an \<open>answer\<close> only as \<open><answer>\<close>, another row as the value of its first column. A
  row without any column among the first five makes the formatter raise \<open>IndexError\<close>.
\<close>

theorem format_answer_many_rows:
  "(1 < length results \<longrightarrow> [] \<notin> set (take 5 results) \<longrightarrow>
      format_answer results question = Inr (py_join ''; '' (map render_among (take 5 results))))
   \<and> (1 < length results \<longrightarrow> [] \<in> set (take 5 results) \<longrightarrow>
      format_answer results question = Inl IndexError)
   \<and> (map_of r ''answer'' = Some a \<longrightarrow> map_of r ''year'' = Some y \<longrightarrow> truthy y \<longrightarrow>
      render_among r = py_str a @ '' ('' @ py_str y @ '')'')"
proof (intro conjI impI)
  assume l: "1 < length results" and ok: "[] \<notin> set (take 5 results)"
  from format_loop_renders[OF ok, of "[]"]
  have "format_loop (take 5 results) [] = Inr (map render_among (take 5 results))" by simp
  with l show "format_answer results question = Inr (py_join ''; '' (map render_among (take 5 results)))"
    by (auto simp: format_answer_def)
next
  assume l: "1 < length results" and e: "[] \<in> set (take 5 results)"
  from format_loop_empty_row[OF e, of "[]"] l
  show "format_answer results question = Inl IndexError"
    by (auto simp: format_answer_def)
next
  assume "map_of r ''answer'' = Some a" "map_of r ''year'' = Some y" "truthy y"
  then show "render_among r = py_str a @ '' ('' @ py_str y @ '')''"
    by (simp add: render_among_def)
qed

text \<open>The theorem at six rows, at two rows of which one has no column, and at one row.\<close>

theorem format_answer_many_rows_witness:
  "format_answer
     [[(''answer'', PStr ''Mercedes''), (''year'', PInt 2014)],
      [(''answer'', PStr ''Mercedes''), (''year'', PInt 2015)],
      [(''answer'', PStr ''Ferrari''), (''year'', PNone)],
      [(''team'', PStr ''Red Bull'')],
      [(''answer'', PStr ''McLaren'')],
      [(''answer'', PStr ''Williams''), (''year'', PInt 2019)]] ''which teams?''
     = Inr ''Mercedes (2014); Mercedes (2015); Ferrari; Red Bull; McLaren''
   \<and> format_answer [[(''answer'', PStr ''Mercedes'')], []] ''which teams?'' = Inl IndexError
   \<and> render_among [(''answer'', PStr ''Mercedes''), (''year'', PInt 2014)] = ''Mercedes (2014)''"
proof -
  let ?rows = "[[(''answer'', PStr ''Mercedes''), (''year'', PInt 2014)],
      [(''answer'', PStr ''Mercedes''), (''year'', PInt 2015)],
      [(''answer'', PStr ''Ferrari''), (''year'', PNone)],
      [(''team'', PStr ''Red Bull'')],
      [(''answer'', PStr ''McLaren'')],
      [(''answer'', PStr ''Williams''), (''year'', PInt 2019)]]"
  let ?bad = "[[(''answer'', PStr ''Mercedes'')], []] :: row list"
  let ?r = "[(''answer'', PStr ''Mercedes''), (''year'', PInt 2014)]"
  have l: "1 < length ?rows" by simp
  have ok: "[] \<notin> set (take 5 ?rows)" by simp
  have j: "py_join ''; '' (map render_among (take 5 ?rows))
           = ''Mercedes (2014); Mercedes (2015); Ferrari; Red Bull; McLaren''"
    by (simp add: render_among_def py_str_def truthy_def str_int_def str_nat.simps digit_char_def)
  have l2: "1 < length ?bad" by simp
  have e: "[] \<in> set (take 5 ?bad)" by simp
  have a: "map_of ?r ''answer'' = Some (PStr ''Mercedes'')" by simp
  have y: "map_of ?r ''year'' = Some (PInt 2014)" by simp
  have t: "truthy (PInt 2014)" by (simp add: truthy_def)
  have s: "py_str (PStr ''Mercedes'') @ '' ('' @ py_str (PInt 2014) @ '')'' = ''Mercedes (2014)''"
    by (simp add: py_str_def str_int_def str_nat.simps digit_char_def)
  from format_answer_many_rows[of ?rows "''which teams?''"] l ok j
  have 1: "format_answer ?rows ''which teams?'' = Inr ''Mercedes (2014); Mercedes (2015); Ferrari; Red Bull; McLaren''"
    by simp
  from format_answer_many_rows[of ?bad "''which teams?''"] l2 e
  have 2: "format_answer ?bad ''which teams?'' = Inl IndexError" by blast
  from format_answer_many_rows[of _ _ ?r "PStr ''Mercedes''" "PInt 2014"] a y t s
  have 3: "render_among ?r = ''Mercedes (2014)''" by simp
  from 1 2 3 show ?thesis by blast
qed

text \<open>
  Claim C8 fails as stated: two rows with an answer and a year are joined as
  \<open><answer> (<year>)\<close>, while each of them alone is rendered as \<open><answer> (in <year>)\<close>.
\<close>

theorem multi_row_rendering_counterexample:
  "format_answer [[(''answer'', PStr ''Lewis Hamilton''), (''year'', PInt 2017)],
                  [(''answer'', PStr ''Max Verstappen''), (''year'', PInt 2021)]] ''who won?''
     = Inr ''Lewis Hamilton (2017); Max Verstappen (2021)''
   \<and> format_answer [[(''answer'', PStr ''Lewis Hamilton''), (''year'', PInt 2017)]] ''who won?''
     = Inr ''Lewis Hamilton (in 2017)''
   \<and> format_answer [[(''answer'', PStr ''Max Verstappen''), (''year'', PInt 2021)]] ''who won?''
     = Inr ''Max Verstappen (in 2021)''"
  by (simp add: format_answer_def format_single_def Let_def py_str_def truthy_def str_int_def
      str_nat.simps digit_char_def)

section \<open>The answer\<close>

lemma block_nonempty: "block n ls \<noteq> []"
  by (simp add: block_def)

lemma rule_templates_nonempty:
  assumes "r \<in> set query_patterns" "template r gs = (p, Inr c)"
  shows "c \<noteq> []"
proof -
  from assms(1) consider
      "template r = call2 (\<lambda>a b. ([], race_engineer_query a b))"
    | "template r = call3 race_engineer_reverse_relative_query"
    | "template r = call2 (\<lambda>a b. ([], Inr (team_query a b)))"
    | "template r = call1 (\<lambda>a. ([], Inr (champion_query a)))"
    | "template r = call1 (\<lambda>a. ([], Inr (dominant_team_query a)))"
    | "template r = call2 (\<lambda>a b. ([], team_relative_query a b))"
    | "template r = call1 (\<lambda>a. ([], champion_relative_query a))"
    | "template r = call1 (\<lambda>a. ([], dominant_team_relative_query a))"
    by (auto simp: query_patterns_def)
  then show ?thesis
  proof cases
    case 1
    with assms(2) show ?thesis
      by (auto simp: call2_def race_engineer_query_def first_year_eq block_nonempty
          split: list.splits if_splits)
  next
    case 2
    with assms(2) show ?thesis
      by (auto simp: call3_def race_engineer_reverse_relative_query_def Let_def block_nonempty
          split: list.splits if_splits sum.splits)
  next
    case 3
    with assms(2) show ?thesis
      by (auto simp: call2_def team_query_def block_nonempty split: list.splits)
  next
    case 4
    with assms(2) show ?thesis
      by (auto simp: call1_def champion_query_def block_nonempty split: list.splits)
  next
    case 5
    with assms(2) show ?thesis
      by (auto simp: call1_def dominant_team_query_def block_nonempty split: list.splits)
  next
    case 6
    with assms(2) show ?thesis
      by (auto simp: call2_def team_relative_raises split: list.splits)
  next
    case 7
    with assms(2) show ?thesis
      by (auto simp: call1_def champion_relative_raises split: list.splits)
  next
    case 8
    with assms(2) show ?thesis
      by (auto simp: call1_def dominant_team_relative_raises split: list.splits)
  qed
qed

lemma scan_nonempty:
  "\<forall>r \<in> set rs. \<forall>gs p c. template r gs = (p, Inr c) \<longrightarrow> c \<noteq> [] \<Longrightarrow>
   snd (scan_rules rs q) = Some c \<Longrightarrow> c \<noteq> []"
proof (induction rs)
  case Nil
  then show ?case by simp
next
  case (Cons r rs)
  show ?case
  proof (cases "re_search (pattern r) (py_strip q)")
    case None
    with Cons show ?thesis unfolding snd_scan_Cons by simp
  next
    case (Some m)
    show ?thesis
    proof (cases "snd (template r (groups m))")
      case (Inl e)
      with Some Cons show ?thesis unfolding snd_scan_Cons by simp
    next
      case (Inr c')
      with Some Cons.prems(2) have "c' = c" unfolding snd_scan_Cons by simp
      moreover from Inr have "template r (groups m) = (fst (template r (groups m)), Inr c')"
        by (cases "template r (groups m)") simp
      ultimately show ?thesis using Cons.prems(1) by auto
    qed
  qed
qed

lemma rule_based_query_truthy:
  "truthy_text (snd (rule_based_query q)) = (snd (rule_based_query q) \<noteq> None)"
proof (cases "snd (rule_based_query q)")
  case None
  then show ?thesis by (simp add: truthy_text_def)
next
  case (Some c)
  then have "snd (scan_rules query_patterns q) = Some c" by (simp add: snd_rule_based_query)
  with scan_nonempty[of query_patterns q c] rule_templates_nonempty have "c \<noteq> []" by blast
  with Some show ?thesis by (simp add: truthy_text_def)
qed

lemma format_loop_raises:
  "format_loop rs answers = Inl e \<Longrightarrow> e = IndexError \<and> [] \<in> set rs"
proof (induction rs arbitrary: answers)
  case Nil
  then show ?case by simp
next
  case (Cons r rs)
  show ?case
  proof (cases r)
    case Nil
    with Cons.prems show ?thesis by (simp add: first_value_def)
  next
    case (Cons kv r')
    with Cons.prems obtain answers' where "format_loop rs answers' = Inl e"
      by (cases kv) (auto simp: first_value_def Let_def split: option.splits if_splits)
    from Cons.IH[OF this] show ?thesis by simp
  qed
qed

lemma format_answer_raises:
  "format_answer results question = Inl e \<Longrightarrow> e = IndexError \<and> [] \<in> set (take 5 results)"
proof -
  assume f: "format_answer results question = Inl e"
  show ?thesis
  proof (cases "length results = 1")
    case True
    then obtain r where r: "results = [r]" by (cases results) auto
    with f have "format_single r = Inl e" by (simp add: format_answer_def)
    then have "e = IndexError \<and> r = []"
      by (cases r) (auto simp: format_single_def first_value_def Let_def split: option.splits if_splits)
    with r show ?thesis by simp
  next
    case False
    with f have "format_loop (take 5 results) [] = Inl e"
      by (auto simp: format_answer_def split: if_splits sum.splits)
    then show ?thesis by (rule format_loop_raises)
  qed
qed

lemma format_answer_no_rows:
  "format_answer [] question = Inr ''I couldn't find an answer to that question in the knowledge graph.''"
  by (simp add: format_answer_def)

lemma llm_based_query_raises:
  "snd (llm_based_query conv q) = Inl e \<Longrightarrow>
   openai_client conv \<noteq> None \<and> get_schema_info (driver_of conv) = Inl e"
  by (auto simp: llm_based_query_def split: option.splits sum.splits)

lemma answer_question_raises:
  assumes "snd (answer_question conv q u) = Inl e"
  shows "(snd (rule_based_query q) = None \<and> u \<and> openai_client conv \<noteq> None
            \<and> get_schema_info (driver_of conv) = Inl e)
         \<or> (e = IndexError
            \<and> (\<exists>cypher. [] \<in> set (take 5 (snd (execute_query (driver_of conv) cypher)))))"
proof -
  obtain p1 rc where rq: "rule_based_query q = (p1, rc)" by (cases "rule_based_query q")
  then have tr: "truthy_text rc = (rc \<noteq> None)" using rule_based_query_truthy[of q] by simp
  show ?thesis
  proof (cases "\<not> truthy_text rc \<and> u")
    case True
    with tr have rc: "rc = None" by simp
    obtain p2 res where l: "llm_based_query conv q = (p2, res)" by (cases "llm_based_query conv q")
    show ?thesis
    proof (cases res)
      case (Inl e')
      with assms rq l True have "e = e'" by (simp add: answer_question_def)
      with Inl l llm_based_query_raises[of conv q e] rq rc True show ?thesis by simp
    next
      case (Inr c)
      show ?thesis
      proof (cases "truthy_text c")
        case False
        with assms rq l True Inr show ?thesis by (simp add: answer_question_def)
      next
        case t: True
        obtain p3 results where ex: "execute_query (driver_of conv) (the c) = (p3, results)"
          by (cases "execute_query (driver_of conv) (the c)")
        with assms rq l True Inr t have "format_answer results q = Inl e"
          by (simp add: answer_question_def split: sum.splits)
        from format_answer_raises[OF this] ex show ?thesis by (auto intro: exI[of _ "the c"])
      qed
    qed
  next
    case False
    show ?thesis
    proof (cases "truthy_text rc")
      case f: False
      with assms rq False show ?thesis by (simp add: answer_question_def)
    next
      case t: True
      obtain p3 results where ex: "execute_query (driver_of conv) (the rc) = (p3, results)"
        by (cases "execute_query (driver_of conv) (the rc)")
      with assms rq False t have "format_answer results q = Inl e"
        by (simp add: answer_question_def split: sum.splits)
      from format_answer_raises[OF this] ex show ?thesis by (auto intro: exI[of _ "the rc"])
    qed
  qed
qed

lemma answer_question_returns:
  assumes "snd (answer_question conv q u) = Inr a"
  shows "ans_question a = q
     \<and> ans_approach a \<in> {''rule-based'', ''llm-based'', ''none''}
     \<and> (ans_approach a = ''none'' \<longrightarrow>
          ans_answer a = ''Sorry, I couldn't understand that question.''
          \<and> ans_cypher a = None \<and> ans_results a = [])
     \<and> (ans_approach a \<noteq> ''none'' \<longrightarrow> ans_results a = [] \<longrightarrow>
          ans_answer a = ''I couldn't find an answer to that question in the knowledge graph.'')"
  using assms
  by (auto simp: answer_question_def format_answer_no_rows
      split: prod.splits sum.splits if_splits)

lemma store_down_raises:
  "snd (answer_question conv_store_down ''Who won the championship in 2017?'' True)
     = Inl (StoreError ''connection refused'')"
proof -
  have r: "rule_based_query ''Who won the championship in 2017?''
           = ([PrintTrying ''Who won the championship in 2017?''], None)" by code_simp
  have s: "get_schema_info (driver_of conv_store_down) = Inl (StoreError ''connection refused'')"
    by (simp add: get_schema_info_def conv_store_down_def)
  have c: "openai_client conv_store_down = Some (\<lambda>q. Inr [Some ''MATCH (n) RETURN n''])"
    by (simp add: conv_store_down_def)
  have l: "llm_based_query conv_store_down ''Who won the championship in 2017?''
           = ([], Inl (StoreError ''connection refused''))"
    by (simp add: llm_based_query_def c s)
  show ?thesis
    by (simp add: answer_question_def r l truthy_text_def)
qed

lemma store_up_answers:
  "snd (answer_question conv_store_up ''who won the championship in 2017?'' False)
     = Inr \<lparr>ans_question = ''who won the championship in 2017?'',
            ans_cypher = Some (champion_query ''2017''),
            ans_results = [[(''answer'', PStr ''Lewis Hamilton''), (''year'', PInt 2017)]],
            ans_answer = ''Lewis Hamilton (in 2017)'',
            ans_approach = ''rule-based''\<rparr>"
proof -
  have r: "rule_based_query ''who won the championship in 2017?''
           = ([PrintTrying ''who won the championship in 2017?'', PrintGroups [''2017'']],
              Some (champion_query ''2017''))" by code_simp
  have t: "truthy_text (Some (champion_query ''2017''))"
    by (simp add: truthy_text_def champion_query_def block_nonempty)
  have x: "execute_query (driver_of conv_store_up) (champion_query ''2017'')
           = ([], [[(''answer'', PStr ''Lewis Hamilton''), (''year'', PInt 2017)]])"
    by (simp add: execute_query_def conv_store_up_def)
  have f: "format_answer [[(''answer'', PStr ''Lewis Hamilton''), (''year'', PInt 2017)]]
             ''who won the championship in 2017?'' = Inr ''Lewis Hamilton (in 2017)''"
    by (simp add: format_answer_def format_single_def Let_def py_str_def truthy_def str_int_def
        str_nat.simps digit_char_def)
  show ?thesis by (simp add: answer_question_def r t x f)
qed

text \<open>
  Claim C1 fails as stated: with a store that refuses every call and a model client in
  place, a question on which no rule fires makes \<open>answer_question\<close> raise the store's
  error, from the schema lookup of the fallback.
\<close>

theorem answer_question_raises_counterexample:
  "snd (answer_question conv_store_down ''Who won the championship in 2017?'' True)
     = Inl (StoreError ''connection refused'')"
  by (rule store_down_raises)

text \<open>
  Claim C1, as the code has it. \<open>answer_question\<close> raises on two paths only: when no rule
  gave a query, the fallback is asked for and has a client, and the schema lookup raises
  (the lookup stands before the \<open>try\<close> of \<open>llm_based_query\<close>); and when a row without
  columns is among the rows to format. On every other path it returns a result whose
  approach is \<open>rule-based\<close>, \<open>llm-based\<close> or \<open>none\<close>; a failure of the model ends in the
  approach \<open>none\<close> with the text "Sorry, I couldn't understand that question.", a failure
  of the execution in the text "I couldn't find an answer ...". An explicit \<open>error\<close>
  approach exists one level up: \<open>ask_question\<close> of the web interface never raises, and
  answers with the approach \<open>error\<close> exactly when the converter cannot be had or
  \<open>answer_question\<close> raises.
\<close>

theorem answer_question_failure_paths:
  "(snd (answer_question conv q use_llm) = Inl e \<longrightarrow>
      (snd (rule_based_query q) = None \<and> use_llm \<and> openai_client conv \<noteq> None
         \<and> get_schema_info (driver_of conv) = Inl e)
      \<or> (e = IndexError
         \<and> (\<exists>cypher. [] \<in> set (take 5 (snd (execute_query (driver_of conv) cypher))))))
   \<and> (snd (answer_question conv q use_llm) = Inr a \<longrightarrow>
      ans_question a = q
      \<and> ans_approach a \<in> {''rule-based'', ''llm-based'', ''none''}
      \<and> (ans_approach a = ''none'' \<longrightarrow>
           ans_answer a = ''Sorry, I couldn't understand that question.''
           \<and> ans_cypher a = None \<and> ans_results a = [])
      \<and> (ans_approach a \<noteq> ''none'' \<longrightarrow> ans_results a = [] \<longrightarrow>
           ans_answer a = ''I couldn't find an answer to that question in the knowledge graph.''))
   \<and> web_approach (ask_question gc q') \<in> {''rule-based'', ''llm-based'', ''none'', ''error''}
   \<and> ((web_approach (ask_question gc q') = ''error'')
        = ((\<exists>e'. gc = Inl e') \<or> (\<exists>conv' e'. gc = Inr conv' \<and> snd (answer_question conv' q' True) = Inl e')))"
proof (intro conjI impI)
  assume "snd (answer_question conv q use_llm) = Inl e"
  then show "(snd (rule_based_query q) = None \<and> use_llm \<and> openai_client conv \<noteq> None
         \<and> get_schema_info (driver_of conv) = Inl e)
      \<or> (e = IndexError
         \<and> (\<exists>cypher. [] \<in> set (take 5 (snd (execute_query (driver_of conv) cypher)))))"
    by (rule answer_question_raises)
next
  assume r: "snd (answer_question conv q use_llm) = Inr a"
  from answer_question_returns[OF r] show "ans_question a = q" by blast
  from answer_question_returns[OF r]
  show "ans_approach a \<in> {''rule-based'', ''llm-based'', ''none''}" by blast
  {
    assume "ans_approach a = ''none''"
    with answer_question_returns[OF r]
    show "ans_answer a = ''Sorry, I couldn't understand that question.''"
      "ans_cypher a = None" "ans_results a = []" by blast+
  }
  {
    assume "ans_approach a \<noteq> ''none''" "ans_results a = []"
    with answer_question_returns[OF r]
    show "ans_answer a = ''I couldn't find an answer to that question in the knowledge graph.''"
      by blast
  }
next
  show "web_approach (ask_question gc q') \<in> {''rule-based'', ''llm-based'', ''none'', ''error''}"
  proof (cases "ask_question gc q'")
    case (Answered a')
    then obtain conv' where "gc = Inr conv'" "snd (answer_question conv' q' True) = Inr a'"
      by (auto simp: ask_question_def split: sum.splits)
    from answer_question_returns[OF this(2)] Answered show ?thesis
      by (auto simp: web_approach_def)
  next
    case (Failed e')
    then show ?thesis by (simp add: web_approach_def)
  qed
next
  show "(web_approach (ask_question gc q') = ''error'')
        = ((\<exists>e'. gc = Inl e') \<or> (\<exists>conv' e'. gc = Inr conv' \<and> snd (answer_question conv' q' True) = Inl e'))"
  proof (cases gc)
    case (Inl e')
    then show ?thesis by (simp add: ask_question_def web_approach_def)
  next
    case (Inr conv')
    show ?thesis
    proof (cases "snd (answer_question conv' q' True)")
      case (Inl e')
      with Inr show ?thesis by (simp add: ask_question_def web_approach_def)
    next
      case r: (Inr a')
      from answer_question_returns[OF r] have "ans_approach a' \<noteq> ''error''" by auto
      with Inr r show ?thesis by (simp add: ask_question_def web_approach_def)
    qed
  qed
qed

text \<open>
  The theorem at the store that is down (the schema lookup raises, the web interface
  answers with the approach \<open>error\<close>) and at a store that answers.
\<close>

theorem answer_question_failure_paths_witness:
  "snd (rule_based_query ''Who won the championship in 2017?'') = None
   \<and> get_schema_info (driver_of conv_store_down) = Inl (StoreError ''connection refused'')
   \<and> web_approach (ask_question (Inr conv_store_down) ''Who won the championship in 2017?'') = ''error''
   \<and> (\<exists>a. snd (answer_question conv_store_up ''who won the championship in 2017?'' False) = Inr a
          \<and> ans_approach a \<in> {''rule-based'', ''llm-based'', ''none''}
          \<and> ans_question a = ''who won the championship in 2017?'')"
proof -
  let ?Q = "''Who won the championship in 2017?''"
  let ?q = "''who won the championship in 2017?''"
  let ?e = "StoreError ''connection refused''"
  let ?a = "\<lparr>ans_question = ?q, ans_cypher = Some (champion_query ''2017''),
            ans_results = [[(''answer'', PStr ''Lewis Hamilton''), (''year'', PInt 2017)]],
            ans_answer = ''Lewis Hamilton (in 2017)'', ans_approach = ''rule-based''\<rparr>"
  from answer_question_failure_paths[of conv_store_down ?Q True ?e _ "Inr conv_store_down" ?Q]
    store_down_raises
  have 1: "snd (rule_based_query ?Q) = None"
    "get_schema_info (driver_of conv_store_down) = Inl ?e"
    "web_approach (ask_question (Inr conv_store_down) ?Q) = ''error''"
    by auto
  from answer_question_failure_paths[of conv_store_up ?q False _ ?a] store_up_answers
  have 2: "ans_approach ?a \<in> {''rule-based'', ''llm-based'', ''none''}" "ans_question ?a = ?q"
    by blast+
  from 1 2 store_up_answers show ?thesis by blast
qed

section \<open>The relative rules\<close>

text \<open>
  Claim C5. Whatever their arguments, \<open>_team_relative_query\<close>, \<open>_champion_relative_query\<close>
  and \<open>_dominant_team_relative_query\<close> raise \<open>TypeError\<close> at the unpacking of the single
  value that \<open>_parse_temporal_context\<close> returns, before any query is built. So the three
  relative rules never give a query: for every question, what \<open>rule_based_query\<close> returns
  is what the scan of the first five rules alone returns, and a question on which none
  of the first five rules fires gets no rule-based query.
\<close>

theorem relative_handlers_always_raise:
  "team_relative_query driver_name year_context = Inl TypeError
   \<and> champion_relative_query year_context = Inl TypeError
   \<and> dominant_team_relative_query year_context = Inl TypeError
   \<and> snd (rule_based_query q) = snd (scan_rules (take 5 query_patterns) q)
   \<and> ((\<forall>r \<in> set (take 5 query_patterns). re_search (pattern r) (py_strip q) = None) \<longrightarrow>
        snd (rule_based_query q) = None)"
proof -
  have "snd (scan_rules (take 5 query_patterns @ drop 5 query_patterns) q)
        = snd (scan_rules (take 5 query_patterns) q)"
    using relative_templates_raise by (rule scan_append_raising)
  then have eq: "snd (rule_based_query q) = snd (scan_rules (take 5 query_patterns) q)"
    by (simp add: snd_rule_based_query)
  have "snd (rule_based_query q) = None"
    if "\<forall>r \<in> set (take 5 query_patterns). re_search (pattern r) (py_strip q) = None"
    using scan_none_fire[OF that] eq by simp
  with eq show ?thesis
    by (simp add: team_relative_raises champion_relative_raises dominant_team_relative_raises)
qed

text \<open>The theorem at the demo question of the relative dominant-team shape, in lower case.\<close>

theorem relative_handlers_always_raise_witness:
  "team_relative_query ''Max Verstappen'' ''2018'' = Inl TypeError
   \<and> champion_relative_query ''2020'' = Inl TypeError
   \<and> dominant_team_relative_query ''2015'' = Inl TypeError
   \<and> snd (rule_based_query ''which team dominated the season after 2015?'') = None"
proof -
  let ?q = "''which team dominated the season after 2015?''"
  have n0: "re_search pat_race_engineer (py_strip ?q) = None" by code_simp
  have n1: "re_search pat_race_engineer_reverse (py_strip ?q) = None" by code_simp
  have n2: "re_search pat_team (py_strip ?q) = None" by code_simp
  have n3: "re_search pat_champion (py_strip ?q) = None" by code_simp
  have n4: "re_search pat_dominant_team (py_strip ?q) = None" by code_simp
  have n: "\<forall>r \<in> set (take 5 query_patterns). re_search (pattern r) (py_strip ?q) = None"
    using n0 n1 n2 n3 n4 by (simp add: query_patterns_def)
  from relative_handlers_always_raise[of "''Max Verstappen''" "''2018''" ?q] n
  have 1: "team_relative_query ''Max Verstappen'' ''2018'' = Inl TypeError"
    "snd (rule_based_query ?q) = None" by blast+
  from relative_handlers_always_raise[of _ "''2020''"]
  have 2: "champion_relative_query ''2020'' = Inl TypeError" by blast
  from relative_handlers_always_raise[of _ "''2015''"]
  have 3: "dominant_team_relative_query ''2015'' = Inl TypeError" by blast
  from 1 2 3 show ?thesis by blast
qed

text \<open>
  Claim C4, at the question of the relative-team shape with \<open>after 2018\<close>: the rule finds
  its pattern and its groups, the handler raises \<open>TypeError\<close>, and no query comes back; the
  ascending order and the limit of 5 that the handler would write are never reached. The
  reverse race-engineer rule, which captures the keyword as a group of its own, does
  deliver them for \<open>after 2018\<close>.
\<close>

theorem relative_team_question_fails:
  "rule_based_query ''what team did Max Verstappen drive for after 2018?'' =
     ([PrintTrying ''what team did Max Verstappen drive for after 2018?'',
       PrintGroups [''Max Verstappen'', ''2018''],
       PrintErrorGenerating TypeError], None)
   \<and> (\<exists>printed cypher.
        rule_based_query ''who was Peter Bonnington race engineer for after 2018?''
          = (printed, Some cypher)
        \<and> clause_lines ''ORDER BY'' cypher = [''ORDER BY r.year ASC'']
        \<and> clause_lines ''LIMIT'' cypher = [''LIMIT 5''])"
proof -
  let ?q = "''who was Peter Bonnington race engineer for after 2018?''"
  let ?c = "block 12
     [''MATCH (engineer:Entity {name: '' @ [apos] @ ''Peter Bonnington'' @ [apos] @ ''})-[r:RELATION]->(driver:Entity)'',
      ''WHERE r.type CONTAINS 'engineer' AND r.year > 2018'',
      ''RETURN driver.name as answer, r.year as year'',
      ''ORDER BY r.year ASC'',
      ''LIMIT 5'']"
  have a: "rule_based_query ''what team did Max Verstappen drive for after 2018?'' =
     ([PrintTrying ''what team did Max Verstappen drive for after 2018?'',
       PrintGroups [''Max Verstappen'', ''2018''],
       PrintErrorGenerating TypeError], None)" by code_simp
  have b: "rule_based_query ?q =
     ([PrintTrying ?q, PrintGroups [''Peter Bonnington'', ''after'', ''2018''],
       PrintArgs ''Peter Bonnington'' ''after'' ''2018'', PrintFilter ''r.year > 2018''],
      Some ?c)" by code_simp
  have "list_all clean_line
     [''MATCH (engineer:Entity {name: '' @ [apos] @ ''Peter Bonnington'' @ [apos] @ ''})-[r:RELATION]->(driver:Entity)'',
      ''WHERE r.type CONTAINS 'engineer' AND r.year > 2018'',
      ''RETURN driver.name as answer, r.year as year'',
      ''ORDER BY r.year ASC'',
      ''LIMIT 5'']"
    by (simp add: clean_line_def py_isspace_def nl_def apos_def)
  then have "clause_lines ''ORDER BY'' ?c = [''ORDER BY r.year ASC'']"
    "clause_lines ''LIMIT'' ?c = [''LIMIT 5'']"
    by (simp_all add: clause_lines_def query_lines_block apos_def)
  with a b show ?thesis by blast
qed

end
